theory Spec2Isabelle
  imports Main
begin

section \<open>Data model (types.ts)\<close>

text \<open>
  The three interfaces of \<^verbatim>\<open>types.ts\<close> become records. The fields \<^verbatim>\<open>id\<close>,
  \<^verbatim>\<open>name\<close> and \<^verbatim>\<open>value\<close> carry a suffix because the plain names are taken in HOL.
  The optional field \<^verbatim>\<open>activeEnvId?: string\<close> is a \<open>string option\<close>, \<open>None\<close> standing
  for \<^verbatim>\<open>undefined\<close>.

  A JavaScript string is modelled as a \<open>string\<close>, one \<open>char\<close> per UTF-16 code unit; the
  model therefore covers the code units below 256 (ASCII and Latin-1).
\<close>

record EnvVariable =
  key :: string
  value_var :: string
  enabled :: bool

record Environment =
  id_env :: string
  name_env :: string
  variables :: "EnvVariable list"

record Project =
  id_proj :: string
  name_proj :: string
  path :: string
  environments :: "Environment list"
  activeEnvId :: "string option"

datatype SyncMode = Terminal | File

section \<open>JavaScript string primitives used by EnvManager.ts\<close>

definition LF :: char where "LF = CHR 0x0A"
definition CR :: char where "CR = CHR 0x0D"
definition DQUOTE :: char where "DQUOTE = CHR 0x22"
definition BACKSLASH :: char where "BACKSLASH = CHR 0x5C"

text \<open>\<^verbatim>\<open>if (s)\<close> on an optional string: \<^verbatim>\<open>undefined\<close> and the empty string are falsy.\<close>

definition truthy :: "string option \<Rightarrow> bool" where
  "truthy x = (case x of None \<Rightarrow> False | Some s \<Rightarrow> s \<noteq> [])"

text \<open>
  White space removed by \<^verbatim>\<open>String.prototype.trim\<close> (WhiteSpace and LineTerminator of
  ECMAScript) among the code units below 256: TAB, LF, VT, FF, CR, SPACE, NBSP.
\<close>

definition is_ws :: "char \<Rightarrow> bool" where
  "is_ws c = (c \<in> {CHR 0x09, CHR 0x0A, CHR 0x0B, CHR 0x0C, CHR 0x0D, CHR 0x20, CHR 0xA0})"

definition trim :: "string \<Rightarrow> string" where
  "trim s = rev (dropWhile is_ws (rev (dropWhile is_ws s)))"

text \<open>The characters that \<^verbatim>\<open>.\<close> of a regular expression refuses (below 256: LF and CR).\<close>

definition is_line_terminator :: "char \<Rightarrow> bool" where
  "is_line_terminator c = (c = LF \<or> c = CR)"

text \<open>\<^verbatim>\<open>s.startsWith('#')\<close>\<close>

definition startsWith_hash :: "string \<Rightarrow> bool" where
  "startsWith_hash s = (case s of [] \<Rightarrow> False | c # _ \<Rightarrow> c = CHR ''#'')"

text \<open>
  \<^verbatim>\<open>s.match(/^([^=]+)=(.*)$/)\<close>: the first group is the longest prefix free of \<^verbatim>\<open>=\<close>
  (greedy, and it cannot give a character back, the next one having to be \<^verbatim>\<open>=\<close>); it
  must be non-empty and followed by \<^verbatim>\<open>=\<close>; the second group is the rest of the string,
  which must hold no line terminator since \<^verbatim>\<open>.\<close> stops there and \<^verbatim>\<open>$\<close> is the end of
  the input. The result is the pair of groups, \<open>None\<close> for \<^verbatim>\<open>null\<close>.
\<close>

definition match_assignment :: "string \<Rightarrow> (string \<times> string) option" where
  "match_assignment s =
     (let g1 = takeWhile (\<lambda>c. c \<noteq> CHR ''='') s;
          r = dropWhile (\<lambda>c. c \<noteq> CHR ''='') s
      in if g1 \<noteq> [] \<and> r \<noteq> [] \<and> list_all (\<lambda>c. \<not> is_line_terminator c) (tl r)
         then Some (g1, tl r) else None)"

text \<open>\<^verbatim>\<open>s.split(/\r?\n/)\<close>: never empty; the empty string gives one empty line.\<close>

fun split_lines :: "string \<Rightarrow> string list" where
  "split_lines [] = [[]]"
| "split_lines (c # cs) =
     (if c = LF then [] # split_lines cs
      else if c = CR \<and> cs \<noteq> [] \<and> hd cs = LF then [] # split_lines (tl cs)
      else (case split_lines cs of [] \<Rightarrow> [[c]] | l # ls \<Rightarrow> (c # l) # ls))"

text \<open>\<^verbatim>\<open>lines.join('\n')\<close>\<close>

fun join_lines :: "string list \<Rightarrow> string" where
  "join_lines [] = []"
| "join_lines [l] = l"
| "join_lines (l # m # ls) = l @ LF # join_lines (m # ls)"

text \<open>\<^verbatim>\<open>value.replace(/"/g, '\\"')\<close>: every double quote gets a backslash before it.\<close>

definition escape_quotes :: "string \<Rightarrow> string" where
  "escape_quotes s = concat (map (\<lambda>c. if c = DQUOTE then [BACKSLASH, DQUOTE] else [c]) s)"

text \<open>The template \<^verbatim>\<open>`${key}="${escapedValue}"`\<close>.\<close>

definition render_line :: "string \<Rightarrow> string \<Rightarrow> string" where
  "render_line k v = k @ CHR ''='' # DQUOTE # escape_quotes v @ [DQUOTE]"

text \<open>
  \<^verbatim>\<open>String.prototype.toLowerCase\<close> on the code units below 256: A..Z and the Latin-1
  capitals (0xC0..0xDE without the multiplication sign 0xD7) move up by 32.
\<close>

definition toLowerCase_char :: "char \<Rightarrow> char" where
  "toLowerCase_char c =
     (let n = (of_char c :: nat)
      in if (65 \<le> n \<and> n \<le> 90) \<or> (192 \<le> n \<and> n \<le> 214) \<or> (216 \<le> n \<and> n \<le> 222)
         then char_of (n + 32) else c)"

definition toLowerCase :: "string \<Rightarrow> string" where
  "toLowerCase s = map toLowerCase_char s"

section \<open>The extension's state and its collaborators\<close>

text \<open>
  The file system behind \<^verbatim>\<open>vscode.workspace.fs\<close> is a map from paths to file contents;
  \<^verbatim>\<open>TextDecoder\<close> and \<^verbatim>\<open>TextEncoder\<close> are the identity on it. An operation that
  throws returns \<open>None\<close>. Only the failures that depend on which files exist are modelled:
  reading, \<^verbatim>\<open>stat\<close>, copying from or deleting a missing file, copying onto an existing
  file without \<^verbatim>\<open>overwrite\<close>.
\<close>

type_synonym filesystem = "string \<rightharpoonup> string"

definition fs_readFile :: "filesystem \<Rightarrow> string \<Rightarrow> string option" where
  "fs_readFile F p = F p"

definition fs_stat :: "filesystem \<Rightarrow> string \<Rightarrow> bool" where
  "fs_stat F p = (F p \<noteq> None)"

definition fs_copy :: "filesystem \<Rightarrow> string \<Rightarrow> string \<Rightarrow> bool \<Rightarrow> filesystem option" where
  "fs_copy F src dst overwrite =
     (case F src of
        None \<Rightarrow> None
      | Some c \<Rightarrow> if F dst \<noteq> None \<and> \<not> overwrite then None else Some (F(dst \<mapsto> c)))"

definition fs_delete :: "filesystem \<Rightarrow> string \<Rightarrow> filesystem option" where
  "fs_delete F p = (if F p = None then None else Some (F(p := None)))"

definition fs_writeFile :: "filesystem \<Rightarrow> string \<Rightarrow> string \<Rightarrow> filesystem" where
  "fs_writeFile F p c = F(p \<mapsto> c)"

text \<open>
  \<^verbatim>\<open>path.join(dir, name)\<close> of Node's POSIX \<^verbatim>\<open>path\<close> module: the non-empty arguments
  are joined by a slash and the result is normalised. The normalisation splits the path
  at the slashes, drops the empty segments and the segments \<^verbatim>\<open>.\<close>, lets a segment
  \<^verbatim>\<open>..\<close> remove the segment before it (above the start of a relative path it is kept,
  above the root it is dropped), and joins what is left by single slashes, with the
  leading slash of an absolute path and the trailing slash of the input. So \<open>/w\<close> and
  \<open>/w/\<close> name the same directory. The backslashes and drive letters of the Windows variant
  are not modelled.
\<close>

fun split_on_slash :: "string \<Rightarrow> string list" where
  "split_on_slash [] = [[]]"
| "split_on_slash (c # cs) =
     (if c = CHR ''/'' then [] # split_on_slash cs
      else (case split_on_slash cs of [] \<Rightarrow> [[c]] | s # ss \<Rightarrow> (c # s) # ss))"

definition normalize_step :: "bool \<Rightarrow> string \<Rightarrow> string list \<Rightarrow> string list" where
  "normalize_step allowAboveRoot seg res =
     (if seg = [] \<or> seg = ''.'' then res
      else if seg = ''..''
           then (if res \<noteq> [] \<and> last res \<noteq> ''..'' then butlast res
                 else if allowAboveRoot then res @ [''..''] else res)
           else res @ [seg])"

fun join_segments :: "string list \<Rightarrow> string" where
  "join_segments [] = []"
| "join_segments [s] = s"
| "join_segments (s # t # ss) = s @ CHR ''/'' # join_segments (t # ss)"

definition normalize_path :: "string \<Rightarrow> string" where
  "normalize_path p =
     (if p = [] then ''.''
      else (let isAbsolute = (hd p = CHR ''/'');
                trailingSeparator = (last p = CHR ''/'');
                segs = fold (normalize_step (\<not> isAbsolute)) (split_on_slash p) []
            in if segs = []
               then (if isAbsolute then ''/'' else if trailingSeparator then ''./'' else ''.'')
               else (if isAbsolute then ''/'' else []) @ join_segments segs
                    @ (if trailingSeparator then ''/'' else [])))"

definition path_join :: "string \<Rightarrow> string \<Rightarrow> string" where
  "path_join d f =
     (if d = [] \<and> f = [] then ''.''
      else normalize_path (if d = [] then f else if f = [] then d else d @ CHR ''/'' # f))"

definition envPath :: "Project \<Rightarrow> string" where
  "envPath p = path_join (path p) ''.env''"

definition bakPath :: "Project \<Rightarrow> string" where
  "bakPath p = path_join (path p) ''.env.bak''"

text \<open>
  One constructor for each place where the functions modelled here show a message to the
  user; the text of a caught error is left out.
\<close>

datatype Notice =
    SyncModeFileMsg
  | SyncModeTerminalMsg
  | RestoreFailedMsg string
  | UpdateFailedMsg string
  | ProjectExistsMsg
  | ReadEnvFailedMsg
  | ImportedNoVarsMsg string
  | ImportedVarsMsg nat string
  | ActiveSetMsg string SyncMode

text \<open>
  The state the class works on: its own fields (\<^verbatim>\<open>_syncMode\<close>, \<^verbatim>\<open>projectsCache\<close>),
  the stores it writes (the sync mode in \<^verbatim>\<open>globalState\<close>, the projects in
  \<^verbatim>\<open>secrets\<close>, the overrides in \<^verbatim>\<open>workspaceState\<close>), the workspace folders, the
  terminal's \<^verbatim>\<open>environmentVariableCollection\<close>, the file system and the messages shown.
  \<^verbatim>\<open>JSON.stringify\<close> into the secret store is the identity on the project list.
\<close>

record State =
  syncMode :: SyncMode
  storedSyncMode :: "SyncMode option"
  projectsCache :: "Project list option"
  secrets :: "Project list option"
  workspaceVars :: "EnvVariable list"
  workspaceFolders :: "string list option"
  collection :: "string \<rightharpoonup> string"
  fs :: filesystem
  messages :: "Notice list"

definition notify :: "Notice \<Rightarrow> State \<Rightarrow> State" where
  "notify n st = st\<lparr>messages := messages st @ [n]\<rparr>"

definition getProjects :: "State \<Rightarrow> Project list" where
  "getProjects st = (case projectsCache st of None \<Rightarrow> [] | Some ps \<Rightarrow> ps)"

definition getWorkspaceVariables :: "State \<Rightarrow> EnvVariable list" where
  "getWorkspaceVariables st = workspaceVars st"

section \<open>File projection: restoreEnvFile and writeEnvFile\<close>

definition restoreEnvFile :: "Project \<Rightarrow> State \<Rightarrow> State" where
  "restoreEnvFile project st =
     (if \<not> fs_stat (fs st) (bakPath project) then st
      else case fs_copy (fs st) (bakPath project) (envPath project) True of
             None \<Rightarrow> notify (RestoreFailedMsg (name_proj project)) st
           | Some F1 \<Rightarrow>
               (case fs_delete F1 (bakPath project) of
                  None \<Rightarrow> notify (RestoreFailedMsg (name_proj project)) (st\<lparr>fs := F1\<rparr>)
                | Some F2 \<Rightarrow> st\<lparr>fs := F2\<rparr>))"

text \<open>
  The first loop of \<^verbatim>\<open>writeEnvFile\<close>, one line at a time: the state of the loop is the
  pair of \<^verbatim>\<open>newLines\<close> and \<^verbatim>\<open>processedKeys\<close>.
\<close>

definition process_line ::
  "EnvVariable list \<Rightarrow> string \<Rightarrow> string list \<times> string set \<Rightarrow> string list \<times> string set" where
  "process_line envVars line acc =
     (let trimmed = trim line
      in case match_assignment trimmed of
           None \<Rightarrow> (fst acc @ [line], snd acc)
         | Some (g1, g2) \<Rightarrow>
             if \<not> startsWith_hash trimmed
             then (let k = trim g1
                   in case find (\<lambda>v. key v = k) envVars of
                        Some managedVar \<Rightarrow>
                          (fst acc @ [render_line k (value_var managedVar)], insert k (snd acc))
                      | None \<Rightarrow> (fst acc @ [line], snd acc))
             else (fst acc @ [line], snd acc))"

text \<open>The second loop: a line for each enabled variable whose key no line matched.\<close>

definition append_new :: "string set \<Rightarrow> EnvVariable \<Rightarrow> string list \<Rightarrow> string list" where
  "append_new processedKeys v newLines =
     (if key v \<notin> processedKeys then newLines @ [render_line (key v) (value_var v)]
      else newLines)"

text \<open>Steps 2 and 3 of \<^verbatim>\<open>writeEnvFile\<close>: from the file's lines to \<^verbatim>\<open>newLines\<close>.\<close>

definition merge_lines :: "EnvVariable list \<Rightarrow> string list \<Rightarrow> string list" where
  "merge_lines vars lines =
     (let envVars = filter enabled vars;
          acc = fold (process_line envVars) lines ([], {})
      in fold (append_new (snd acc)) envVars (fst acc))"

text \<open>\<^verbatim>\<open>project.environments.find(e => e.id === project.activeEnvId)\<close>\<close>

definition find_active_env :: "Project \<Rightarrow> Environment option" where
  "find_active_env project = find (\<lambda>e. Some (id_env e) = activeEnvId project) (environments project)"

text \<open>
  \<^verbatim>\<open>writeEnvFile\<close>. The inner \<^verbatim>\<open>try\<close> covers the read and the backup: when either
  throws, the content is taken to be empty and the write goes on. \<^verbatim>\<open>writeFile\<close> does
  not fail in this model, so the outer \<^verbatim>\<open>catch\<close> and its message are never reached.
\<close>

definition writeEnvFile :: "Project \<Rightarrow> State \<Rightarrow> State" where
  "writeEnvFile project st =
     (if \<not> truthy (activeEnvId project) then st
      else case find_active_env project of
        None \<Rightarrow> st
      | Some env \<Rightarrow>
          (let r = (case fs_readFile (fs st) (envPath project) of
                      None \<Rightarrow> ([], fs st)
                    | Some existingContent \<Rightarrow>
                        if fs_stat (fs st) (bakPath project)
                        then (existingContent, fs st)
                        else (case fs_copy (fs st) (envPath project) (bakPath project) False of
                                None \<Rightarrow> ([], fs st)
                              | Some F1 \<Rightarrow> (existingContent, F1)))
           in st\<lparr>fs := fs_writeFile (snd r) (envPath project)
                          (join_lines (merge_lines (variables env) (split_lines (fst r))))\<rparr>))"

section \<open>Terminal projection: updateEnvironmentVariables\<close>

text \<open>\<^verbatim>\<open>vars.forEach(v => { if (v.enabled) collection.replace(v.key, v.value) })\<close>\<close>

definition replace_enabled :: "EnvVariable \<Rightarrow> (string \<rightharpoonup> string) \<Rightarrow> (string \<rightharpoonup> string)" where
  "replace_enabled v c = (if enabled v then c(key v \<mapsto> value_var v) else c)"

text \<open>The body of the loop over the workspace folders, for the folder with path \<open>workspacePath\<close>.\<close>

definition inject_folder ::
  "Project list \<Rightarrow> string \<Rightarrow> (string \<rightharpoonup> string) \<Rightarrow> (string \<rightharpoonup> string)" where
  "inject_folder projects workspacePath c =
     (case find (\<lambda>p. toLowerCase (path p) = toLowerCase workspacePath) projects of
        None \<Rightarrow> c
      | Some matchedProject \<Rightarrow>
          if truthy (activeEnvId matchedProject)
          then (case find_active_env matchedProject of
                  None \<Rightarrow> c
                | Some activeEnv \<Rightarrow> fold replace_enabled (variables activeEnv) c)
          else c)"

definition updateEnvironmentVariables :: "State \<Rightarrow> State" where
  "updateEnvironmentVariables st =
     (let st1 = st\<lparr>collection := Map.empty\<rparr>
      in if syncMode st = File then st1
         else case workspaceFolders st of
                None \<Rightarrow> st1
              | Some folders \<Rightarrow>
                  (let c1 = fold (inject_folder (getProjects st)) folders Map.empty;
                       wv = getWorkspaceVariables st
                   in st1\<lparr>collection := (if length wv > 0 then fold replace_enabled wv c1 else c1)\<rparr>))"

section \<open>Mode coordination and saving\<close>

definition syncAllActiveProjectsToFile :: "State \<Rightarrow> State" where
  "syncAllActiveProjectsToFile st =
     (fold (\<lambda>project s. if truthy (activeEnvId project) then writeEnvFile project s else s)
           (getProjects st) st)\<lparr>collection := Map.empty\<rparr>"

definition revertAllActiveProjectsFromFile :: "State \<Rightarrow> State" where
  "revertAllActiveProjectsFromFile st = fold restoreEnvFile (getProjects st) st"

definition toggleSyncMode :: "State \<Rightarrow> State" where
  "toggleSyncMode st =
     (let m = (if syncMode st = Terminal then File else Terminal);
          st1 = st\<lparr>syncMode := m, storedSyncMode := Some m\<rparr>
      in if m = File then notify SyncModeFileMsg (syncAllActiveProjectsToFile st1)
         else notify SyncModeTerminalMsg
                (updateEnvironmentVariables (revertAllActiveProjectsFromFile st1)))"

definition saveProjects :: "Project list \<Rightarrow> State \<Rightarrow> State" where
  "saveProjects projects st =
     (let st1 = st\<lparr>projectsCache := Some projects, secrets := Some projects\<rparr>
      in if syncMode st1 = File then syncAllActiveProjectsToFile st1
         else updateEnvironmentVariables st1)"

section \<open>Workspace overrides\<close>

text \<open>
  A mutation through the result of \<^verbatim>\<open>find\<close> changes the first element of the array that
  satisfies the predicate, and no other.
\<close>

fun update_first :: "('a \<Rightarrow> bool) \<Rightarrow> ('a \<Rightarrow> 'a) \<Rightarrow> 'a list \<Rightarrow> 'a list" where
  "update_first P f [] = []"
| "update_first P f (x # xs) = (if P x then f x # xs else x # update_first P f xs)"

definition addWorkspaceVariable :: "string \<Rightarrow> string \<Rightarrow> State \<Rightarrow> State" where
  "addWorkspaceVariable k v st =
     (let vars = getWorkspaceVariables st;
          vars1 = (case find (\<lambda>x. key x = k) vars of
                     Some existing \<Rightarrow>
                       update_first (\<lambda>x. key x = k) (\<lambda>x. x\<lparr>value_var := v, enabled := True\<rparr>) vars
                   | None \<Rightarrow> vars @ [\<lparr>key = k, value_var = v, enabled = True\<rparr>])
      in updateEnvironmentVariables (st\<lparr>workspaceVars := vars1\<rparr>))"

section \<open>Projects, environments and variables\<close>

text \<open>The line parser of the import in \<^verbatim>\<open>addProject\<close>.\<close>

definition is_quote :: "char \<Rightarrow> bool" where
  "is_quote c = (c = DQUOTE \<or> c = CHR 0x27)"

text \<open>
  \<^verbatim>\<open>value.substring(1, value.length - 1)\<close> when the value starts and ends with the same
  quote. For the one-character value the arguments are 1 and 0, which \<^verbatim>\<open>substring\<close>
  swaps: the value stays as it is.
\<close>

definition strip_quotes :: "string \<Rightarrow> string" where
  "strip_quotes v =
     (if v \<noteq> [] \<and> is_quote (hd v) \<and> last v = hd v
      then (if length v = 1 then v else butlast (tl v))
      else v)"

definition parseLine :: "string \<Rightarrow> EnvVariable list \<Rightarrow> EnvVariable list" where
  "parseLine line vars =
     (let trimmed = trim line
      in if trimmed = [] \<or> startsWith_hash trimmed then vars
         else case match_assignment trimmed of
                None \<Rightarrow> vars
              | Some (g1, g2) \<Rightarrow>
                  vars @ [\<lparr>key = trim g1, value_var = strip_quotes (trim g2), enabled = True\<rparr>])"

text \<open>
  \<^verbatim>\<open>addProject\<close>. The two readings of \<^verbatim>\<open>Date.now().toString()\<close> are the parameters
  \<open>now1\<close> and \<open>now2\<close>. An empty \<^verbatim>\<open>envFilePath\<close> is falsy, like a missing one.
\<close>

definition addProject :: "string \<Rightarrow> string \<Rightarrow> string option \<Rightarrow> string \<Rightarrow> string \<Rightarrow> State \<Rightarrow> State" where
  "addProject name projectPath envFilePath now1 now2 st =
     (let projects = getProjects st
      in case find (\<lambda>p. path p = projectPath) projects of
           Some p \<Rightarrow> notify ProjectExistsMsg st
         | None \<Rightarrow>
             (let newProject = \<lparr>id_proj = now1, name_proj = name, path = projectPath,
                                environments = [], activeEnvId = None\<rparr>
              in if truthy envFilePath
                 then (case fs_readFile (fs st) (the envFilePath) of
                         None \<Rightarrow> saveProjects (projects @ [newProject]) (notify ReadEnvFailedMsg st)
                       | Some text \<Rightarrow>
                           (let vars = fold parseLine (split_lines text) [];
                                newEnv = \<lparr>id_env = now2, name_env = ''Check-in'', variables = vars\<rparr>;
                                imported = newProject\<lparr>environments := [newEnv],
                                                        activeEnvId := Some (id_env newEnv)\<rparr>;
                                msg = (if length vars = 0 then ImportedNoVarsMsg (the envFilePath)
                                       else ImportedVarsMsg (length vars) (the envFilePath))
                            in saveProjects (projects @ [imported]) (notify msg st)))
                 else saveProjects (projects @ [newProject]) st))"

definition deleteProject :: "string \<Rightarrow> State \<Rightarrow> State" where
  "deleteProject projectId st =
     saveProjects (filter (\<lambda>p. id_proj p \<noteq> projectId) (getProjects st)) st"

definition renameProject :: "string \<Rightarrow> string \<Rightarrow> State \<Rightarrow> State" where
  "renameProject projectId newName st =
     (let projects = getProjects st
      in case find (\<lambda>p. id_proj p = projectId) projects of
           None \<Rightarrow> st
         | Some project \<Rightarrow>
             saveProjects (update_first (\<lambda>p. id_proj p = projectId)
                             (\<lambda>p. p\<lparr>name_proj := newName\<rparr>) projects) st)"

definition addEnvironment :: "string \<Rightarrow> string \<Rightarrow> string \<Rightarrow> State \<Rightarrow> State" where
  "addEnvironment projectId name now st =
     (let projects = getProjects st
      in case find (\<lambda>p. id_proj p = projectId) projects of
           None \<Rightarrow> st
         | Some project \<Rightarrow>
             saveProjects (update_first (\<lambda>p. id_proj p = projectId)
                             (\<lambda>p. p\<lparr>environments := environments p @
                                       [\<lparr>id_env = now, name_env = name, variables = []\<rparr>]\<rparr>)
                             projects) st)"

text \<open>What \<^verbatim>\<open>deleteEnvironment\<close> does to the project it found.\<close>

definition remove_environment :: "string \<Rightarrow> Project \<Rightarrow> Project" where
  "remove_environment envId project =
     (let p1 = project\<lparr>environments := filter (\<lambda>e. id_env e \<noteq> envId) (environments project)\<rparr>
      in if activeEnvId p1 = Some envId then p1\<lparr>activeEnvId := None\<rparr> else p1)"

definition deleteEnvironment :: "string \<Rightarrow> string \<Rightarrow> State \<Rightarrow> State" where
  "deleteEnvironment projectId envId st =
     (let projects = getProjects st
      in case find (\<lambda>p. id_proj p = projectId) projects of
           None \<Rightarrow> st
         | Some project \<Rightarrow>
             saveProjects (update_first (\<lambda>p. id_proj p = projectId)
                             (remove_environment envId) projects) st)"

text \<open>A change to one environment of a project, found by its id.\<close>

definition in_environment :: "string \<Rightarrow> (Environment \<Rightarrow> Environment) \<Rightarrow> Project \<Rightarrow> Project" where
  "in_environment envId f project =
     project\<lparr>environments := update_first (\<lambda>e. id_env e = envId) f (environments project)\<rparr>"

definition renameEnvironment :: "string \<Rightarrow> string \<Rightarrow> string \<Rightarrow> State \<Rightarrow> State" where
  "renameEnvironment projectId envId newName st =
     (let projects = getProjects st
      in case find (\<lambda>p. id_proj p = projectId) projects of
           None \<Rightarrow> st
         | Some project \<Rightarrow>
             (case find (\<lambda>e. id_env e = envId) (environments project) of
                None \<Rightarrow> st
              | Some env \<Rightarrow>
                  saveProjects (update_first (\<lambda>p. id_proj p = projectId)
                                  (in_environment envId (\<lambda>e. e\<lparr>name_env := newName\<rparr>))
                                  projects) st))"

definition setActiveEnvironment :: "string \<Rightarrow> string \<Rightarrow> State \<Rightarrow> State" where
  "setActiveEnvironment projectId envId st =
     (let projects = getProjects st
      in case find (\<lambda>p. id_proj p = projectId) projects of
           None \<Rightarrow> st
         | Some project \<Rightarrow>
             (let st1 = saveProjects (update_first (\<lambda>p. id_proj p = projectId)
                                        (\<lambda>p. p\<lparr>activeEnvId := Some envId\<rparr>) projects) st
              in notify (ActiveSetMsg envId (syncMode st1)) st1))"

definition addVariable :: "string \<Rightarrow> string \<Rightarrow> string \<Rightarrow> string \<Rightarrow> State \<Rightarrow> State" where
  "addVariable projectId envId k v st =
     (let projects = getProjects st
      in case find (\<lambda>p. id_proj p = projectId) projects of
           None \<Rightarrow> st
         | Some project \<Rightarrow>
             (case find (\<lambda>e. id_env e = envId) (environments project) of
                None \<Rightarrow> st
              | Some env \<Rightarrow>
                  saveProjects (update_first (\<lambda>p. id_proj p = projectId)
                                  (in_environment envId
                                     (\<lambda>e. e\<lparr>variables := variables e @
                                               [\<lparr>key = k, value_var = v, enabled = True\<rparr>]\<rparr>))
                                  projects) st))"

definition deleteVariable :: "string \<Rightarrow> string \<Rightarrow> string \<Rightarrow> State \<Rightarrow> State" where
  "deleteVariable projectId envId k st =
     (let projects = getProjects st
      in case find (\<lambda>p. id_proj p = projectId) projects of
           None \<Rightarrow> st
         | Some project \<Rightarrow>
             (case find (\<lambda>e. id_env e = envId) (environments project) of
                None \<Rightarrow> st
              | Some env \<Rightarrow>
                  saveProjects (update_first (\<lambda>p. id_proj p = projectId)
                                  (in_environment envId
                                     (\<lambda>e. e\<lparr>variables := filter (\<lambda>x. key x \<noteq> k) (variables e)\<rparr>))
                                  projects) st))"

definition editVariable :: "string \<Rightarrow> string \<Rightarrow> string \<Rightarrow> string \<Rightarrow> string \<Rightarrow> State \<Rightarrow> State" where
  "editVariable projectId envId originalKey newKey newValue st =
     (let projects = getProjects st
      in case find (\<lambda>p. id_proj p = projectId) projects of
           None \<Rightarrow> st
         | Some project \<Rightarrow>
             (case find (\<lambda>e. id_env e = envId) (environments project) of
                None \<Rightarrow> st
              | Some env \<Rightarrow>
                  (case find (\<lambda>x. key x = originalKey) (variables env) of
                     None \<Rightarrow> st
                   | Some variable \<Rightarrow>
                       saveProjects (update_first (\<lambda>p. id_proj p = projectId)
                                       (in_environment envId
                                          (\<lambda>e. e\<lparr>variables :=
                                                   update_first (\<lambda>x. key x = originalKey)
                                                     (\<lambda>x. x\<lparr>key := newKey, value_var := newValue\<rparr>)
                                                     (variables e)\<rparr>))
                                       projects) st)))"

section \<open>Notions used in the statements\<close>

text \<open>
  The invariant of a project in the data model: \<^verbatim>\<open>activeEnvId\<close>, when present, is the id
  of one of the project's environments.
\<close>

definition active_env_exists :: "Project \<Rightarrow> bool" where
  "active_env_exists p =
     (case activeEnvId p of None \<Rightarrow> True | Some a \<Rightarrow> a \<in> id_env ` set (environments p))"

text \<open>
  How \<^verbatim>\<open>writeEnvFile\<close> reads one line of the target, in the terms of its first loop: the
  line is a comment when its trimmed text starts with \<^verbatim>\<open>#\<close>, blank when its trimmed text is
  empty, and it assigns the key \<open>k\<close> when the trimmed text matches the pattern and \<open>k\<close> is
  the trimmed first group.
\<close>

definition is_comment :: "string \<Rightarrow> bool" where
  "is_comment line = startsWith_hash (trim line)"

definition is_blank :: "string \<Rightarrow> bool" where
  "is_blank line = (trim line = [])"

definition assigned_key :: "string \<Rightarrow> string option" where
  "assigned_key line = map_option (\<lambda>g. trim (fst g)) (match_assignment (trim line))"

section \<open>Concrete inputs\<close>

text \<open>
  A state in terminal mode with the given projects and files, no workspace folder, no
  override and nothing injected; an enabled variable; a project with one environment
  \<open>e1\<close>, which is the active one.
\<close>

definition initial_state :: "Project list \<Rightarrow> filesystem \<Rightarrow> State" where
  "initial_state ps F =
     \<lparr>syncMode = Terminal, storedSyncMode = None, projectsCache = Some ps, secrets = Some ps,
      workspaceVars = [], workspaceFolders = None, collection = Map.empty, fs = F,
      messages = []\<rparr>"

definition var :: "string \<Rightarrow> string \<Rightarrow> EnvVariable" where
  "var k v = \<lparr>key = k, value_var = v, enabled = True\<rparr>"

definition project_with :: "string \<Rightarrow> EnvVariable list \<Rightarrow> Project" where
  "project_with d vs =
     \<lparr>id_proj = ''1'', name_proj = ''app'', path = d,
      environments = [\<lparr>id_env = ''e1'', name_env = ''dev'', variables = vs\<rparr>],
      activeEnvId = Some ''e1''\<rparr>"

section \<open>Files of a project\<close>

lemma split_on_slash_nonempty: "split_on_slash xs \<noteq> []"
  by (induction xs) (auto split: list.splits)

lemma split_on_slash_plain: "CHR ''/'' \<notin> set f \<Longrightarrow> split_on_slash f = [f]"
  by (induction f) auto

lemma split_on_slash_append:
  "CHR ''/'' \<notin> set f \<Longrightarrow> split_on_slash (d @ CHR ''/'' # f) = split_on_slash d @ [f]"
proof (induction d)
  case Nil
  then show ?case by (simp add: split_on_slash_plain)
next
  case (Cons c d)
  then show ?case
    by (cases "split_on_slash d") (auto simp: split_on_slash_nonempty)
qed

lemma join_segments_snoc:
  "join_segments (xs @ [f]) = concat (map (\<lambda>s. s @ ''/'') xs) @ f"
proof (induction xs)
  case Nil
  then show ?case by simp
next
  case (Cons x xs)
  then show ?case by (cases xs) simp_all
qed

text \<open>
  Joining a directory with a plain file name gives a directory prefix, which depends on
  the directory alone, followed by the name.
\<close>

lemma path_join_plain_name:
  assumes "CHR ''/'' \<notin> set f" "f \<noteq> []" "f \<noteq> ''.''" "f \<noteq> ''..''"
  shows "path_join d f
     = (if d \<noteq> [] \<and> hd d = CHR ''/'' then ''/'' else [])
       @ concat (map (\<lambda>s. s @ ''/'')
           (fold (normalize_step (\<not> (d \<noteq> [] \<and> hd d = CHR ''/''))) (split_on_slash d) []))
       @ f"
proof -
  let ?abs = "d \<noteq> [] \<and> hd d = CHR ''/''"
  let ?joined = "if d = [] then f else d @ CHR ''/'' # f"
  let ?dir = "fold (normalize_step (\<not> ?abs)) (split_on_slash d) []"
  have hdf: "hd f \<noteq> CHR ''/''" using assms(1,2) by (cases f) auto
  have lastf: "last f \<noteq> CHR ''/''" using assms(1,2) last_in_set by metis
  have nonempty: "?joined \<noteq> []" using assms(2) by simp
  have abs: "(hd ?joined = CHR ''/'') = ?abs" using hdf by (cases d) auto
  have trail: "last ?joined \<noteq> CHR ''/''" using lastf assms(2) by simp
  have push: "normalize_step a f res = res @ [f]" for a res
    using assms(2,3,4) by (simp add: normalize_step_def)
  have segs: "fold (normalize_step (\<not> ?abs)) (split_on_slash ?joined) [] = ?dir @ [f]"
  proof (cases "d = []")
    case True
    have "normalize_step a [] [] = []" for a by (simp add: normalize_step_def)
    then show ?thesis
      using assms(1) True by (simp add: split_on_slash_plain push)
  next
    case False
    then show ?thesis
      using assms(1) by (simp add: split_on_slash_append push)
  qed
  have "path_join d f = normalize_path ?joined"
    using assms(2) by (simp add: path_join_def)
  also have "\<dots> = (if ?abs then ''/'' else []) @ join_segments (?dir @ [f])"
    using nonempty abs trail segs by (simp add: normalize_path_def Let_def)
  finally show ?thesis by (simp add: join_segments_snoc)
qed

lemma project_files:
  "\<exists>D. envPath p = D @ ''.env'' \<and> bakPath p = D @ ''.env.bak''"
proof -
  let ?d = "path p"
  let ?D = "(if ?d \<noteq> [] \<and> hd ?d = CHR ''/'' then ''/'' else [])
       @ concat (map (\<lambda>s. s @ ''/'')
           (fold (normalize_step (\<not> (?d \<noteq> [] \<and> hd ?d = CHR ''/''))) (split_on_slash ?d) []))"
  have "envPath p = ?D @ ''.env''"
    unfolding envPath_def by (subst path_join_plain_name) simp_all
  moreover have "bakPath p = ?D @ ''.env.bak''"
    unfolding bakPath_def by (subst path_join_plain_name) simp_all
  ultimately show ?thesis by (intro exI[of _ ?D] conjI)
qed

lemma same_files: "envPath p = envPath q \<longleftrightarrow> bakPath p = bakPath q"
proof -
  obtain D where D: "envPath p = D @ ''.env''" "bakPath p = D @ ''.env.bak''"
    using project_files by blast
  obtain E where E: "envPath q = E @ ''.env''" "bakPath q = E @ ''.env.bak''"
    using project_files by blast
  show ?thesis unfolding D E by simp
qed

lemma same_path_same_files:
  "path p = path q \<Longrightarrow> envPath p = envPath q \<and> bakPath p = bakPath q"
  by (simp add: envPath_def bakPath_def)

lemma envPath_neq_bakPath: "envPath p \<noteq> bakPath q"
proof
  assume eq: "envPath p = bakPath q"
  obtain D where D: "envPath p = D @ ''.env''" using project_files by blast
  obtain E where E: "bakPath q = E @ ''.env.bak''" using project_files by blast
  have "last (D @ ''.env'') = last (E @ ''.env.bak'')" using eq D E by simp
  then show False by simp
qed

text \<open>The two files of a project at the path \<open>/w\<close>, and the same directory written \<open>/w/\<close>.\<close>

lemma path_join_w:
  "path_join ''/w'' ''.env'' = ''/w/.env''"
  "path_join ''/w'' ''.env.bak'' = ''/w/.env.bak''"
  "path_join ''/w/'' ''.env'' = ''/w/.env''"
  by (simp_all add: path_join_def normalize_path_def normalize_step_def Let_def)

section \<open>What a write and a restore do to the file system\<close>

lemma writeEnvFile_fields:
  "syncMode (writeEnvFile p st) = syncMode st"
  "storedSyncMode (writeEnvFile p st) = storedSyncMode st"
  "projectsCache (writeEnvFile p st) = projectsCache st"
  "secrets (writeEnvFile p st) = secrets st"
  "workspaceVars (writeEnvFile p st) = workspaceVars st"
  "workspaceFolders (writeEnvFile p st) = workspaceFolders st"
  "collection (writeEnvFile p st) = collection st"
  "messages (writeEnvFile p st) = messages st"
  by (simp_all add: writeEnvFile_def Let_def split: option.splits)

lemma restoreEnvFile_fields:
  "syncMode (restoreEnvFile p st) = syncMode st"
  "storedSyncMode (restoreEnvFile p st) = storedSyncMode st"
  "projectsCache (restoreEnvFile p st) = projectsCache st"
  "secrets (restoreEnvFile p st) = secrets st"
  "workspaceVars (restoreEnvFile p st) = workspaceVars st"
  "workspaceFolders (restoreEnvFile p st) = workspaceFolders st"
  "collection (restoreEnvFile p st) = collection st"
  by (simp_all add: restoreEnvFile_def notify_def split: option.splits)

lemma writeEnvFile_skip:
  "\<not> truthy (activeEnvId p) \<or> find_active_env p = None \<Longrightarrow> writeEnvFile p st = st"
  by (auto simp: writeEnvFile_def)

lemma writeEnvFile_fs:
  assumes "truthy (activeEnvId p)" "find_active_env p = Some env"
  shows "fs (writeEnvFile p st) =
     (case fs st (envPath p) of
        None \<Rightarrow> (fs st)(envPath p \<mapsto> join_lines (merge_lines (variables env) (split_lines [])))
      | Some c \<Rightarrow>
          (case fs st (bakPath p) of
             None \<Rightarrow> (fs st)(bakPath p \<mapsto> c,
                             envPath p \<mapsto> join_lines (merge_lines (variables env) (split_lines c)))
           | Some b \<Rightarrow> (fs st)(envPath p \<mapsto> join_lines (merge_lines (variables env) (split_lines c)))))"
  using assms
  by (auto simp: writeEnvFile_def Let_def fs_readFile_def fs_stat_def fs_copy_def fs_writeFile_def
      split: option.splits)

lemma writeEnvFile_other:
  "x \<noteq> envPath p \<Longrightarrow> x \<noteq> bakPath p \<Longrightarrow> fs (writeEnvFile p st) x = fs st x"
  by (simp add: writeEnvFile_def Let_def fs_readFile_def fs_stat_def fs_copy_def fs_writeFile_def
      split: option.splits)

lemma writeEnvFile_keeps_backup:
  "fs st (bakPath p) = Some b \<Longrightarrow> fs (writeEnvFile p st) (bakPath p) = Some b"
  by (simp add: writeEnvFile_def Let_def fs_readFile_def fs_stat_def fs_copy_def fs_writeFile_def
      envPath_neq_bakPath[symmetric] split: option.splits)

lemma restoreEnvFile_no_backup:
  "fs st (bakPath p) = None \<Longrightarrow> restoreEnvFile p st = st"
  by (simp add: restoreEnvFile_def fs_stat_def)

lemma restoreEnvFile_backup:
  "fs st (bakPath p) = Some b \<Longrightarrow>
   restoreEnvFile p st = st\<lparr>fs := (fs st)(envPath p \<mapsto> b, bakPath p := None)\<rparr>"
  by (simp add: restoreEnvFile_def fs_stat_def fs_copy_def fs_delete_def envPath_neq_bakPath[symmetric])

lemma restoreEnvFile_other:
  "x \<noteq> envPath p \<Longrightarrow> x \<noteq> bakPath p \<Longrightarrow> fs (restoreEnvFile p st) x = fs st x"
  by (cases "fs st (bakPath p)") (simp_all add: restoreEnvFile_no_backup restoreEnvFile_backup)

text \<open>The definitions that the evaluation of a write on a concrete file goes through.\<close>

lemmas write_eval =
  initial_state_def var_def project_with_def writeEnvFile_def restoreEnvFile_def truthy_def
  find_active_env_def fs_readFile_def fs_stat_def fs_copy_def fs_delete_def fs_writeFile_def
  envPath_def bakPath_def path_join_w merge_lines_def process_line_def append_new_def trim_def
  match_assignment_def render_line_def escape_quotes_def startsWith_hash_def is_ws_def
  is_line_terminator_def LF_def CR_def DQUOTE_def BACKSLASH_def

section \<open>The backup\<close>

text \<open>
  C3 (as amended). The target file of project \<open>p\<close> exists with content \<open>c0\<close>, and
  \<^verbatim>\<open>writeEnvFile\<close> runs twice for the project (\<open>p'\<close> is the project at the second write,
  at the same path, its environments possibly changed in between). A backup that exists
  before a write is still there after it with the same content, at the first write and
  at the second. When no backup exists before the first write, that write, if the project
  has an active environment, creates the backup with the content \<open>c0\<close>, and the restore
  that follows the two writes puts \<open>c0\<close> back into the target, the content before the
  first write and not the one before the second, and removes the backup.
\<close>

theorem backup_first_write_wins:
  assumes target: "fs st (envPath p) = Some c0" and same: "path p' = path p"
  shows "(\<forall>b. fs st (bakPath p) = Some b \<longrightarrow> fs (writeEnvFile p st) (bakPath p) = Some b)
       \<and> (\<forall>b. fs (writeEnvFile p st) (bakPath p) = Some b \<longrightarrow>
              fs (writeEnvFile p' (writeEnvFile p st)) (bakPath p) = Some b)
       \<and> (fs st (bakPath p) = None \<and> truthy (activeEnvId p) \<and> find_active_env p \<noteq> None \<longrightarrow>
              fs (writeEnvFile p st) (bakPath p) = Some c0
              \<and> fs (writeEnvFile p' (writeEnvFile p st)) (bakPath p) = Some c0)
       \<and> (fs st (bakPath p) = None \<longrightarrow>
              fs (restoreEnvFile p (writeEnvFile p' (writeEnvFile p st))) (envPath p) = Some c0
              \<and> fs (restoreEnvFile p (writeEnvFile p' (writeEnvFile p st))) (bakPath p) = None)"
proof -
  have bp: "bakPath p' = bakPath p" and ep: "envPath p' = envPath p"
    using same by (simp_all add: bakPath_def envPath_def)
  let ?s1 = "writeEnvFile p st" and ?s2 = "writeEnvFile p' (writeEnvFile p st)"
  have first: "fs ?s1 (bakPath p) = Some b" if "fs st (bakPath p) = Some b" for b
    using that by (rule writeEnvFile_keeps_backup)
  have second: "fs ?s2 (bakPath p) = Some b" if "fs ?s1 (bakPath p) = Some b" for b
    using writeEnvFile_keeps_backup[of ?s1 p' b] that by (simp add: bp)
  have created: "fs ?s1 (bakPath p) = Some c0"
    if "fs st (bakPath p) = None" "truthy (activeEnvId p)" "find_active_env p \<noteq> None"
    using target that by (auto simp: writeEnvFile_fs envPath_neq_bakPath[symmetric])
  have restored: "fs (restoreEnvFile p ?s2) (envPath p) = Some c0
                \<and> fs (restoreEnvFile p ?s2) (bakPath p) = None"
    if none: "fs st (bakPath p) = None"
  proof (cases "truthy (activeEnvId p) \<and> find_active_env p \<noteq> None")
    case True
    then have "fs ?s1 (bakPath p) = Some c0" using created none by simp
    then have "fs ?s2 (bakPath p) = Some c0" using second by blast
    then show ?thesis
      by (simp add: restoreEnvFile_backup envPath_neq_bakPath)
  next
    case False
    then have s1: "?s1 = st" by (auto simp: writeEnvFile_skip)
    show ?thesis
    proof (cases "truthy (activeEnvId p') \<and> find_active_env p' \<noteq> None")
      case True
      then obtain env where e: "find_active_env p' = Some env" and t: "truthy (activeEnvId p')"
        by auto
      have "fs ?s2 (bakPath p) = Some c0"
        using target none
        by (simp add: s1 writeEnvFile_fs[OF t e] bp ep envPath_neq_bakPath[symmetric])
      then show ?thesis
        by (simp add: restoreEnvFile_backup envPath_neq_bakPath)
    next
      case False
      then have "?s2 = st" using s1 by (auto simp: writeEnvFile_skip)
      then show ?thesis using none target
        by (simp add: s1 restoreEnvFile_no_backup)
    qed
  qed
  show ?thesis using first second created restored by blast
qed

theorem backup_first_write_wins_witness:
  "fs (initial_state [] [''/w/.env'' \<mapsto> ''FOO=bar'']) (envPath (project_with ''/w'' [var ''FOO'' ''baz'']))
     = Some ''FOO=bar''
   \<and> path (project_with ''/w'' [var ''FOO'' ''qux'']) = path (project_with ''/w'' [var ''FOO'' ''baz''])
   \<and> fs (initial_state [] [''/w/.env'' \<mapsto> ''FOO=bar'']) (bakPath (project_with ''/w'' [var ''FOO'' ''baz'']))
     = None
   \<and> truthy (activeEnvId (project_with ''/w'' [var ''FOO'' ''baz'']))
   \<and> find_active_env (project_with ''/w'' [var ''FOO'' ''baz'']) \<noteq> None
   \<and> fs (writeEnvFile (project_with ''/w'' [var ''FOO'' ''baz''])
          (initial_state [] [''/w/.env'' \<mapsto> ''FOO=bar'']))
        (bakPath (project_with ''/w'' [var ''FOO'' ''baz''])) = Some ''FOO=bar''
   \<and> fs (writeEnvFile (project_with ''/w'' [var ''FOO'' ''qux''])
          (writeEnvFile (project_with ''/w'' [var ''FOO'' ''baz''])
            (initial_state [] [''/w/.env'' \<mapsto> ''FOO=bar''])))
        (bakPath (project_with ''/w'' [var ''FOO'' ''baz''])) = Some ''FOO=bar''
   \<and> fs (restoreEnvFile (project_with ''/w'' [var ''FOO'' ''baz''])
          (writeEnvFile (project_with ''/w'' [var ''FOO'' ''qux''])
            (writeEnvFile (project_with ''/w'' [var ''FOO'' ''baz''])
              (initial_state [] [''/w/.env'' \<mapsto> ''FOO=bar'']))))
        (envPath (project_with ''/w'' [var ''FOO'' ''baz''])) = Some ''FOO=bar''
   \<and> fs (restoreEnvFile (project_with ''/w'' [var ''FOO'' ''baz''])
          (writeEnvFile (project_with ''/w'' [var ''FOO'' ''qux''])
            (writeEnvFile (project_with ''/w'' [var ''FOO'' ''baz''])
              (initial_state [] [''/w/.env'' \<mapsto> ''FOO=bar'']))))
        (bakPath (project_with ''/w'' [var ''FOO'' ''baz''])) = None"
  using backup_first_write_wins[of "initial_state [] [''/w/.env'' \<mapsto> ''FOO=bar'']"
      "project_with ''/w'' [var ''FOO'' ''baz'']" "''FOO=bar''" "project_with ''/w'' [var ''FOO'' ''qux'']"]
  by (simp add: initial_state_def project_with_def envPath_def bakPath_def path_join_w truthy_def
      find_active_env_def)

text \<open>
  C3 as it is stated asks only for the target to exist. With a backup file from an
  earlier time next to the target, neither write replaces that backup, and the restore
  puts the old backup into the target, not the content the target had before the first
  of the two writes.
\<close>

theorem backup_first_write_wins_counterexample:
  "fs (initial_state [] [''/w/.env'' \<mapsto> ''FOO=bar'', ''/w/.env.bak'' \<mapsto> ''OLD=1''])
      (envPath (project_with ''/w'' [var ''FOO'' ''baz''])) = Some ''FOO=bar''
   \<and> path (project_with ''/w'' [var ''FOO'' ''qux'']) = path (project_with ''/w'' [var ''FOO'' ''baz''])
   \<and> fs (restoreEnvFile (project_with ''/w'' [var ''FOO'' ''baz''])
          (writeEnvFile (project_with ''/w'' [var ''FOO'' ''qux''])
            (writeEnvFile (project_with ''/w'' [var ''FOO'' ''baz''])
              (initial_state [] [''/w/.env'' \<mapsto> ''FOO=bar'', ''/w/.env.bak'' \<mapsto> ''OLD=1'']))))
        (envPath (project_with ''/w'' [var ''FOO'' ''baz''])) = Some ''OLD=1''
   \<and> ''OLD=1'' \<noteq> ''FOO=bar''"
  by (simp add: write_eval)

section \<open>Toggling the sync mode\<close>

lemma write_keeps_round_trip_state:
  assumes "(fs st (envPath p) = Some c \<and> fs st (bakPath p) = None)
         \<or> (fs st (envPath p) \<noteq> None \<and> fs st (bakPath p) = Some c)"
  shows "(fs (writeEnvFile q st) (envPath p) = Some c \<and> fs (writeEnvFile q st) (bakPath p) = None)
       \<or> (fs (writeEnvFile q st) (envPath p) \<noteq> None \<and> fs (writeEnvFile q st) (bakPath p) = Some c)"
proof (cases "truthy (activeEnvId q) \<and> find_active_env q \<noteq> None")
  case False
  then show ?thesis using assms by (auto simp: writeEnvFile_skip)
next
  case True
  then obtain env where t: "truthy (activeEnvId q)" and e: "find_active_env q = Some env" by auto
  show ?thesis
  proof (cases "envPath q = envPath p")
    case True
    then have "envPath q = envPath p" "bakPath q = bakPath p"
      using same_files[of q p] by simp_all
    then show ?thesis using assms
      by (auto simp: writeEnvFile_fs[OF t e] envPath_neq_bakPath envPath_neq_bakPath[symmetric])
  next
    case False
    then have "envPath p \<noteq> envPath q" "bakPath p \<noteq> bakPath q"
      using same_files[of q p] by auto
    then show ?thesis using assms
      by (simp add: writeEnvFile_other envPath_neq_bakPath envPath_neq_bakPath[symmetric])
  qed
qed

lemma sync_loop_fields:
  "projectsCache (fold (\<lambda>q s. if truthy (activeEnvId q) then writeEnvFile q s else s) ps st)
     = projectsCache st"
  "syncMode (fold (\<lambda>q s. if truthy (activeEnvId q) then writeEnvFile q s else s) ps st)
     = syncMode st"
  by (induction ps arbitrary: st) (simp_all add: writeEnvFile_fields)

lemma revert_loop_fields:
  "projectsCache (fold restoreEnvFile ps st) = projectsCache st"
  "syncMode (fold restoreEnvFile ps st) = syncMode st"
  by (induction ps arbitrary: st) (simp_all add: restoreEnvFile_fields)

lemma sync_loop_keeps_round_trip_state:
  assumes "(fs st (envPath p) = Some c \<and> fs st (bakPath p) = None)
         \<or> (fs st (envPath p) \<noteq> None \<and> fs st (bakPath p) = Some c)"
  shows "(fs (fold (\<lambda>q s. if truthy (activeEnvId q) then writeEnvFile q s else s) ps st) (envPath p) = Some c
          \<and> fs (fold (\<lambda>q s. if truthy (activeEnvId q) then writeEnvFile q s else s) ps st) (bakPath p) = None)
       \<or> (fs (fold (\<lambda>q s. if truthy (activeEnvId q) then writeEnvFile q s else s) ps st) (envPath p) \<noteq> None
          \<and> fs (fold (\<lambda>q s. if truthy (activeEnvId q) then writeEnvFile q s else s) ps st) (bakPath p) = Some c)"
  using assms
proof (induction ps arbitrary: st)
  case Nil
  then show ?case by simp
next
  case (Cons q ps)
  show ?case
  proof (cases "truthy (activeEnvId q)")
    case True
    then show ?thesis
      using Cons.IH[OF write_keeps_round_trip_state[OF Cons.prems, of q]] by simp
  next
    case False
    then show ?thesis using Cons.IH[OF Cons.prems] by simp
  qed
qed

lemma restore_keeps_original:
  assumes "fs st (envPath p) = Some c" "fs st (bakPath p) = None"
  shows "fs (restoreEnvFile q st) (envPath p) = Some c \<and> fs (restoreEnvFile q st) (bakPath p) = None"
proof (cases "envPath q = envPath p")
  case True
  then have "bakPath q = bakPath p" using same_files[of q p] by simp
  then show ?thesis using assms by (simp add: restoreEnvFile_no_backup)
next
  case False
  then have "envPath p \<noteq> envPath q" "bakPath p \<noteq> bakPath q"
    using same_files[of q p] by auto
  then show ?thesis using assms
    by (simp add: restoreEnvFile_other envPath_neq_bakPath envPath_neq_bakPath[symmetric])
qed

lemma restore_same_path:
  assumes "envPath q = envPath p"
    and "(fs st (envPath p) = Some c \<and> fs st (bakPath p) = None)
         \<or> (fs st (envPath p) \<noteq> None \<and> fs st (bakPath p) = Some c)"
  shows "fs (restoreEnvFile q st) (envPath p) = Some c \<and> fs (restoreEnvFile q st) (bakPath p) = None"
proof -
  have eq: "envPath q = envPath p" "bakPath q = bakPath p"
    using assms(1) same_files[of q p] by simp_all
  from assms(2) show ?thesis
  proof
    assume "fs st (envPath p) = Some c \<and> fs st (bakPath p) = None"
    then show ?thesis using eq by (simp add: restoreEnvFile_no_backup)
  next
    assume "fs st (envPath p) \<noteq> None \<and> fs st (bakPath p) = Some c"
    then have "fs st (bakPath q) = Some c" using eq by simp
    then show ?thesis using eq
      by (simp add: restoreEnvFile_backup envPath_neq_bakPath)
  qed
qed

lemma restore_other_path:
  assumes "envPath q \<noteq> envPath p"
  shows "fs (restoreEnvFile q st) (envPath p) = fs st (envPath p)
       \<and> fs (restoreEnvFile q st) (bakPath p) = fs st (bakPath p)"
proof -
  have "envPath p \<noteq> envPath q" "bakPath p \<noteq> bakPath q"
    using assms same_files[of q p] by auto
  then show ?thesis
    by (simp add: restoreEnvFile_other envPath_neq_bakPath envPath_neq_bakPath[symmetric])
qed

lemma revert_loop_keeps_original:
  assumes "fs st (envPath p) = Some c" "fs st (bakPath p) = None"
  shows "fs (fold restoreEnvFile ps st) (envPath p) = Some c
       \<and> fs (fold restoreEnvFile ps st) (bakPath p) = None"
  using assms
proof (induction ps arbitrary: st)
  case Nil
  then show ?case by simp
next
  case (Cons q ps)
  have "fs (restoreEnvFile q st) (envPath p) = Some c \<and> fs (restoreEnvFile q st) (bakPath p) = None"
    using Cons.prems by (rule restore_keeps_original)
  then show ?case using Cons.IH[of "restoreEnvFile q st"] by simp
qed

lemma revert_loop_restores:
  assumes "p \<in> set ps"
    and "(fs st (envPath p) = Some c \<and> fs st (bakPath p) = None)
         \<or> (fs st (envPath p) \<noteq> None \<and> fs st (bakPath p) = Some c)"
  shows "fs (fold restoreEnvFile ps st) (envPath p) = Some c
       \<and> fs (fold restoreEnvFile ps st) (bakPath p) = None"
  using assms
proof (induction ps arbitrary: st)
  case Nil
  then show ?case by simp
next
  case (Cons q ps)
  show ?case
  proof (cases "envPath q = envPath p")
    case True
    have "fs (restoreEnvFile q st) (envPath p) = Some c \<and> fs (restoreEnvFile q st) (bakPath p) = None"
      using True Cons.prems(2) by (rule restore_same_path)
    then show ?thesis
      using revert_loop_keeps_original[of "restoreEnvFile q st" p c ps] by simp
  next
    case False
    then have "p \<in> set ps" using Cons.prems(1) by auto
    moreover have "(fs (restoreEnvFile q st) (envPath p) = Some c \<and> fs (restoreEnvFile q st) (bakPath p) = None)
         \<or> (fs (restoreEnvFile q st) (envPath p) \<noteq> None \<and> fs (restoreEnvFile q st) (bakPath p) = Some c)"
      using Cons.prems(2) restore_other_path[OF False, of st] by simp
    ultimately show ?thesis using Cons.IH[of "restoreEnvFile q st"] by simp
  qed
qed

lemma updateEnvironmentVariables_fs: "fs (updateEnvironmentVariables st) = fs st"
  by (simp add: updateEnvironmentVariables_def Let_def split: option.splits)

lemma updateEnvironmentVariables_fields:
  "syncMode (updateEnvironmentVariables st) = syncMode st"
  "projectsCache (updateEnvironmentVariables st) = projectsCache st"
  "messages (updateEnvironmentVariables st) = messages st"
  by (simp_all add: updateEnvironmentVariables_def Let_def split: option.splits)

lemma toggle_to_file:
  assumes "syncMode st = Terminal"
  shows "syncMode (toggleSyncMode st) = File"
    and "getProjects (toggleSyncMode st) = getProjects st"
    and "fs (toggleSyncMode st)
         = fs (fold (\<lambda>q s. if truthy (activeEnvId q) then writeEnvFile q s else s) (getProjects st)
                 (st\<lparr>syncMode := File, storedSyncMode := Some File\<rparr>))"
  using assms
  by (simp_all add: toggleSyncMode_def Let_def notify_def syncAllActiveProjectsToFile_def
      getProjects_def sync_loop_fields)

lemma toggle_to_terminal:
  assumes "syncMode st = File"
  shows "syncMode (toggleSyncMode st) = Terminal"
    and "getProjects (toggleSyncMode st) = getProjects st"
    and "fs (toggleSyncMode st)
         = fs (fold restoreEnvFile (getProjects st)
                 (st\<lparr>syncMode := Terminal, storedSyncMode := Some Terminal\<rparr>))"
  using assms
  by (simp_all add: toggleSyncMode_def Let_def notify_def revertAllActiveProjectsFromFile_def
      getProjects_def revert_loop_fields updateEnvironmentVariables_fs updateEnvironmentVariables_fields)

lemmas toggle_eval =
  toggleSyncMode_def syncAllActiveProjectsToFile_def revertAllActiveProjectsFromFile_def
  updateEnvironmentVariables_def getProjects_def notify_def Let_def


text \<open>
  C4 (as amended). The extension is in terminal mode, \<open>p\<close> is one of its projects, the
  target file of \<open>p\<close> exists with content \<open>c\<close> and the project has no backup file at
  that moment. Then toggling to file mode and back to terminal mode leaves the target
  with the content \<open>c\<close> again, and no backup behind. Whether \<open>p\<close> has an active
  environment, and which other projects there are, does not matter.
\<close>

theorem mode_round_trip_restores_target:
  assumes mode: "syncMode st = Terminal"
    and member: "p \<in> set (getProjects st)"
    and target: "fs st (envPath p) = Some c"
    and no_backup: "fs st (bakPath p) = None"
  shows "syncMode (toggleSyncMode st) = File
       \<and> syncMode (toggleSyncMode (toggleSyncMode st)) = Terminal
       \<and> fs (toggleSyncMode (toggleSyncMode st)) (envPath p) = Some c
       \<and> fs (toggleSyncMode (toggleSyncMode st)) (bakPath p) = None"
proof -
  let ?t = "toggleSyncMode st"
  have m1: "syncMode ?t = File" and ps1: "getProjects ?t = getProjects st"
    using toggle_to_file[OF mode] by simp_all
  have "(fs ?t (envPath p) = Some c \<and> fs ?t (bakPath p) = None)
      \<or> (fs ?t (envPath p) \<noteq> None \<and> fs ?t (bakPath p) = Some c)"
    unfolding toggle_to_file(3)[OF mode]
    by (rule sync_loop_keeps_round_trip_state) (simp add: target no_backup)
  then have "fs (toggleSyncMode ?t) (envPath p) = Some c \<and> fs (toggleSyncMode ?t) (bakPath p) = None"
    unfolding toggle_to_terminal(3)[OF m1] ps1
    by (intro revert_loop_restores[OF member]) simp
  then show ?thesis using m1 toggle_to_terminal(1)[OF m1] by simp
qed

theorem mode_round_trip_restores_target_witness:
  "syncMode (initial_state [project_with ''/w'' [var ''FOO'' ''baz'']] [''/w/.env'' \<mapsto> ''FOO=bar''])
     = Terminal
   \<and> project_with ''/w'' [var ''FOO'' ''baz'']
       \<in> set (getProjects (initial_state [project_with ''/w'' [var ''FOO'' ''baz'']]
                 [''/w/.env'' \<mapsto> ''FOO=bar'']))
   \<and> fs (initial_state [project_with ''/w'' [var ''FOO'' ''baz'']] [''/w/.env'' \<mapsto> ''FOO=bar''])
        (envPath (project_with ''/w'' [var ''FOO'' ''baz''])) = Some ''FOO=bar''
   \<and> fs (initial_state [project_with ''/w'' [var ''FOO'' ''baz'']] [''/w/.env'' \<mapsto> ''FOO=bar''])
        (bakPath (project_with ''/w'' [var ''FOO'' ''baz''])) = None
   \<and> fs (toggleSyncMode (toggleSyncMode
            (initial_state [project_with ''/w'' [var ''FOO'' ''baz'']] [''/w/.env'' \<mapsto> ''FOO=bar''])))
        (envPath (project_with ''/w'' [var ''FOO'' ''baz''])) = Some ''FOO=bar''"
  using mode_round_trip_restores_target[of
      "initial_state [project_with ''/w'' [var ''FOO'' ''baz'']] [''/w/.env'' \<mapsto> ''FOO=bar'']"
      "project_with ''/w'' [var ''FOO'' ''baz'']" "''FOO=bar''"]
  by (simp add: initial_state_def project_with_def getProjects_def envPath_def bakPath_def path_join_w)


text \<open>
  C4 as it is stated asks for nothing about the backup. With a backup file from an
  earlier time next to the target, the write of file mode keeps that backup instead of
  saving the target, and the restore puts the old backup in the target's place.
\<close>

theorem mode_round_trip_counterexample:
  "syncMode (initial_state [project_with ''/w'' [var ''FOO'' ''baz'']]
               [''/w/.env'' \<mapsto> ''FOO=bar'', ''/w/.env.bak'' \<mapsto> ''OLD=1'']) = Terminal
   \<and> project_with ''/w'' [var ''FOO'' ''baz'']
       \<in> set (getProjects (initial_state [project_with ''/w'' [var ''FOO'' ''baz'']]
               [''/w/.env'' \<mapsto> ''FOO=bar'', ''/w/.env.bak'' \<mapsto> ''OLD=1'']))
   \<and> fs (initial_state [project_with ''/w'' [var ''FOO'' ''baz'']]
               [''/w/.env'' \<mapsto> ''FOO=bar'', ''/w/.env.bak'' \<mapsto> ''OLD=1''])
        (envPath (project_with ''/w'' [var ''FOO'' ''baz''])) = Some ''FOO=bar''
   \<and> fs (toggleSyncMode (toggleSyncMode
            (initial_state [project_with ''/w'' [var ''FOO'' ''baz'']]
               [''/w/.env'' \<mapsto> ''FOO=bar'', ''/w/.env.bak'' \<mapsto> ''OLD=1''])))
        (envPath (project_with ''/w'' [var ''FOO'' ''baz''])) = Some ''OLD=1''
   \<and> ''OLD=1'' \<noteq> ''FOO=bar''"
  by (simp add: toggle_eval write_eval)


section \<open>A target that does not exist\<close>

lemma sync_loop_creates_target:
  assumes "p \<in> set ps" "truthy (activeEnvId p)" "find_active_env p = Some env"
  shows "fs (fold (\<lambda>q s. if truthy (activeEnvId q) then writeEnvFile q s else s) ps st) (envPath p)
           \<noteq> None"
proof -
  have keep: "fs (writeEnvFile q s) (envPath p) \<noteq> None" if "fs s (envPath p) \<noteq> None" for q s
  proof (cases "truthy (activeEnvId q) \<and> find_active_env q \<noteq> None")
    case False
    then show ?thesis using that by (auto simp: writeEnvFile_skip)
  next
    case True
    then obtain e where "truthy (activeEnvId q)" "find_active_env q = Some e" by auto
    then show ?thesis using that
      by (auto simp: writeEnvFile_fs split: option.splits)
  qed
  have loop: "fs (fold (\<lambda>q s. if truthy (activeEnvId q) then writeEnvFile q s else s) qs s) (envPath p)
           \<noteq> None" if "fs s (envPath p) \<noteq> None" for qs s
    using that
  proof (induction qs arbitrary: s)
    case Nil
    then show ?case by simp
  next
    case (Cons a qs)
    show ?case using Cons.IH[OF keep[OF Cons.prems, of a]] Cons.IH[OF Cons.prems] by simp
  qed
  have made: "fs (writeEnvFile p s) (envPath p) \<noteq> None" for s
    by (simp add: writeEnvFile_fs[OF assms(2,3)] envPath_neq_bakPath[symmetric] split: option.splits)
  from assms(1) show ?thesis
  proof (induction ps arbitrary: st)
    case Nil
    then show ?case by simp
  next
    case (Cons q ps)
    show ?case
    proof (cases "q = p")
      case True
      then show ?thesis using loop[OF made, of ps st] assms(2) by simp
    next
      case False
      then have "p \<in> set ps" using Cons.prems by simp
      then show ?thesis using Cons.IH by simp
    qed
  qed
qed

lemma revert_loop_keeps_target:
  assumes "fs st (envPath p) \<noteq> None"
  shows "fs (fold restoreEnvFile ps st) (envPath p) \<noteq> None"
  using assms
proof (induction ps arbitrary: st)
  case Nil
  then show ?case by simp
next
  case (Cons q ps)
  have "fs (restoreEnvFile q st) (envPath p) \<noteq> None"
    using Cons.prems
    by (cases "fs st (bakPath q)")
      (auto simp: restoreEnvFile_no_backup restoreEnvFile_backup envPath_neq_bakPath)
  then show ?case using Cons.IH by simp
qed

text \<open>
  C10 (as amended). The target file of \<open>p\<close> does not exist. Then \<^verbatim>\<open>writeEnvFile\<close>
  creates no backup: the backup path holds what it held. When the project has no backup
  file already, the \<^verbatim>\<open>restoreEnvFile\<close> that follows changes nothing: with an active
  environment the target stays the file that the write generated. For a project of the
  extension in terminal mode, again without a backup file, toggling to file mode and back
  leaves a target file where there was none.
\<close>

theorem absent_target_has_no_backup:
  assumes absent: "fs st (envPath p) = None"
  shows "fs (writeEnvFile p st) (bakPath p) = fs st (bakPath p)
       \<and> (fs st (bakPath p) = None \<longrightarrow>
            restoreEnvFile p (writeEnvFile p st) = writeEnvFile p st)
       \<and> (fs st (bakPath p) = None \<and> truthy (activeEnvId p) \<and> find_active_env p = Some env \<longrightarrow>
            fs (restoreEnvFile p (writeEnvFile p st)) (envPath p)
              = Some (join_lines (merge_lines (variables env) (split_lines []))))
       \<and> (fs st (bakPath p) = None \<and> syncMode st = Terminal \<and> p \<in> set (getProjects st)
            \<and> truthy (activeEnvId p) \<and> find_active_env p = Some env \<longrightarrow>
            fs (toggleSyncMode (toggleSyncMode st)) (envPath p) \<noteq> None)"
proof -
  have same: "fs (writeEnvFile p st) (bakPath p) = fs st (bakPath p)"
    using absent
    by (cases "truthy (activeEnvId p) \<and> find_active_env p \<noteq> None")
      (auto simp: writeEnvFile_fs writeEnvFile_skip envPath_neq_bakPath[symmetric])
  have noop: "restoreEnvFile p (writeEnvFile p st) = writeEnvFile p st"
    if "fs st (bakPath p) = None"
    using that same by (intro restoreEnvFile_no_backup) simp
  have gen: "fs (restoreEnvFile p (writeEnvFile p st)) (envPath p)
              = Some (join_lines (merge_lines (variables env) (split_lines [])))"
    if "fs st (bakPath p) = None" "truthy (activeEnvId p)" "find_active_env p = Some env"
    using absent by (simp add: noop[OF that(1)] writeEnvFile_fs[OF that(2,3)])
  have stays: "fs (toggleSyncMode (toggleSyncMode st)) (envPath p) \<noteq> None"
    if mode: "syncMode st = Terminal" and member: "p \<in> set (getProjects st)"
      and act: "truthy (activeEnvId p)" "find_active_env p = Some env"
  proof -
    have m1: "syncMode (toggleSyncMode st) = File"
      and ps1: "getProjects (toggleSyncMode st) = getProjects st"
      using toggle_to_file[OF mode] by simp_all
    have "fs (toggleSyncMode st) (envPath p) \<noteq> None"
      unfolding toggle_to_file(3)[OF mode] using member act by (rule sync_loop_creates_target)
    then show ?thesis
      unfolding toggle_to_terminal(3)[OF m1] ps1 by (intro revert_loop_keeps_target) simp
  qed
  show ?thesis using same noop gen stays by blast
qed

theorem absent_target_has_no_backup_witness:
  "fs (initial_state [project_with ''/w'' [var ''FOO'' ''baz'']] Map.empty)
      (envPath (project_with ''/w'' [var ''FOO'' ''baz''])) = None
   \<and> fs (initial_state [project_with ''/w'' [var ''FOO'' ''baz'']] Map.empty)
      (bakPath (project_with ''/w'' [var ''FOO'' ''baz''])) = None
   \<and> syncMode (initial_state [project_with ''/w'' [var ''FOO'' ''baz'']] Map.empty) = Terminal
   \<and> project_with ''/w'' [var ''FOO'' ''baz'']
       \<in> set (getProjects (initial_state [project_with ''/w'' [var ''FOO'' ''baz'']] Map.empty))
   \<and> truthy (activeEnvId (project_with ''/w'' [var ''FOO'' ''baz'']))
   \<and> find_active_env (project_with ''/w'' [var ''FOO'' ''baz''])
       = Some \<lparr>id_env = ''e1'', name_env = ''dev'', variables = [var ''FOO'' ''baz'']\<rparr>
   \<and> fs (writeEnvFile (project_with ''/w'' [var ''FOO'' ''baz''])
          (initial_state [project_with ''/w'' [var ''FOO'' ''baz'']] Map.empty))
        (bakPath (project_with ''/w'' [var ''FOO'' ''baz''])) = None
   \<and> restoreEnvFile (project_with ''/w'' [var ''FOO'' ''baz''])
        (writeEnvFile (project_with ''/w'' [var ''FOO'' ''baz''])
          (initial_state [project_with ''/w'' [var ''FOO'' ''baz'']] Map.empty))
       = writeEnvFile (project_with ''/w'' [var ''FOO'' ''baz''])
          (initial_state [project_with ''/w'' [var ''FOO'' ''baz'']] Map.empty)
   \<and> fs (restoreEnvFile (project_with ''/w'' [var ''FOO'' ''baz''])
          (writeEnvFile (project_with ''/w'' [var ''FOO'' ''baz''])
            (initial_state [project_with ''/w'' [var ''FOO'' ''baz'']] Map.empty)))
        (envPath (project_with ''/w'' [var ''FOO'' ''baz'']))
       = Some (LF # ''FOO='' @ DQUOTE # ''baz'' @ [DQUOTE])
   \<and> fs (toggleSyncMode (toggleSyncMode
            (initial_state [project_with ''/w'' [var ''FOO'' ''baz'']] Map.empty)))
        (envPath (project_with ''/w'' [var ''FOO'' ''baz''])) \<noteq> None"
proof -
  have hyps: "fs (initial_state [project_with ''/w'' [var ''FOO'' ''baz'']] Map.empty)
      (envPath (project_with ''/w'' [var ''FOO'' ''baz''])) = None"
    "fs (initial_state [project_with ''/w'' [var ''FOO'' ''baz'']] Map.empty)
      (bakPath (project_with ''/w'' [var ''FOO'' ''baz''])) = None"
    "syncMode (initial_state [project_with ''/w'' [var ''FOO'' ''baz'']] Map.empty) = Terminal"
    "project_with ''/w'' [var ''FOO'' ''baz'']
       \<in> set (getProjects (initial_state [project_with ''/w'' [var ''FOO'' ''baz'']] Map.empty))"
    "truthy (activeEnvId (project_with ''/w'' [var ''FOO'' ''baz'']))"
    "find_active_env (project_with ''/w'' [var ''FOO'' ''baz''])
       = Some \<lparr>id_env = ''e1'', name_env = ''dev'', variables = [var ''FOO'' ''baz'']\<rparr>"
    by (simp_all add: initial_state_def project_with_def getProjects_def truthy_def find_active_env_def)
  have gen: "join_lines (merge_lines [var ''FOO'' ''baz''] (split_lines []))
        = LF # ''FOO='' @ DQUOTE # ''baz'' @ [DQUOTE]"
    by (simp add: write_eval)
  let ?p = "project_with ''/w'' [var ''FOO'' ''baz'']"
  let ?e = "\<lparr>id_env = ''e1'', name_env = ''dev'', variables = [var ''FOO'' ''baz'']\<rparr>"
  let ?s = "initial_state [?p] Map.empty"
  note inst = absent_target_has_no_backup[OF hyps(1), of ?e]
  from inst hyps(2) have a: "fs (writeEnvFile ?p ?s) (bakPath ?p) = None"
    by simp
  from inst hyps(2) have b: "restoreEnvFile ?p (writeEnvFile ?p ?s) = writeEnvFile ?p ?s"
    by blast
  from inst hyps have "fs (restoreEnvFile ?p (writeEnvFile ?p ?s)) (envPath ?p)
      = Some (join_lines (merge_lines (variables ?e) (split_lines [])))"
    by blast
  then have c: "fs (restoreEnvFile ?p (writeEnvFile ?p ?s)) (envPath ?p)
      = Some (LF # ''FOO='' @ DQUOTE # ''baz'' @ [DQUOTE])"
    using gen by simp
  from inst hyps have d: "fs (toggleSyncMode (toggleSyncMode ?s)) (envPath ?p) \<noteq> None"
    by blast
  show ?thesis using hyps a b c d by blast
qed

text \<open>
  C10 as it is stated asks only for the target to be missing. With a backup file from an
  earlier time in the project's directory, the write creates no backup either, but the
  restore is no longer without effect: it puts the old backup in the place of the file
  just generated.
\<close>

theorem absent_target_stale_backup_counterexample:
  "fs (initial_state [project_with ''/w'' [var ''FOO'' ''baz'']] [''/w/.env.bak'' \<mapsto> ''OLD=1''])
      (envPath (project_with ''/w'' [var ''FOO'' ''baz''])) = None
   \<and> fs (writeEnvFile (project_with ''/w'' [var ''FOO'' ''baz''])
          (initial_state [project_with ''/w'' [var ''FOO'' ''baz'']] [''/w/.env.bak'' \<mapsto> ''OLD=1'']))
        (envPath (project_with ''/w'' [var ''FOO'' ''baz'']))
       = Some (LF # ''FOO='' @ DQUOTE # ''baz'' @ [DQUOTE])
   \<and> fs (restoreEnvFile (project_with ''/w'' [var ''FOO'' ''baz''])
          (writeEnvFile (project_with ''/w'' [var ''FOO'' ''baz''])
            (initial_state [project_with ''/w'' [var ''FOO'' ''baz'']] [''/w/.env.bak'' \<mapsto> ''OLD=1''])))
        (envPath (project_with ''/w'' [var ''FOO'' ''baz''])) = Some ''OLD=1''
   \<and> restoreEnvFile (project_with ''/w'' [var ''FOO'' ''baz''])
          (writeEnvFile (project_with ''/w'' [var ''FOO'' ''baz''])
            (initial_state [project_with ''/w'' [var ''FOO'' ''baz'']] [''/w/.env.bak'' \<mapsto> ''OLD=1'']))
       \<noteq> writeEnvFile (project_with ''/w'' [var ''FOO'' ''baz''])
            (initial_state [project_with ''/w'' [var ''FOO'' ''baz'']] [''/w/.env.bak'' \<mapsto> ''OLD=1''])
   \<and> fs (toggleSyncMode (toggleSyncMode
          (initial_state [project_with ''/w'' [var ''FOO'' ''baz'']] [''/w/.env.bak'' \<mapsto> ''OLD=1''])))
        (envPath (project_with ''/w'' [var ''FOO'' ''baz''])) = Some ''OLD=1''"
proof -
  let ?p = "project_with ''/w'' [var ''FOO'' ''baz'']"
  let ?s = "initial_state [?p] [''/w/.env.bak'' \<mapsto> ''OLD=1'']"
  have a: "fs ?s (envPath ?p) = None"
    and b: "fs (writeEnvFile ?p ?s) (envPath ?p) = Some (LF # ''FOO='' @ DQUOTE # ''baz'' @ [DQUOTE])"
    and c: "fs (restoreEnvFile ?p (writeEnvFile ?p ?s)) (envPath ?p) = Some ''OLD=1''"
    and e: "fs (toggleSyncMode (toggleSyncMode ?s)) (envPath ?p) = Some ''OLD=1''"
    by (simp_all add: toggle_eval write_eval)
  have d: "restoreEnvFile ?p (writeEnvFile ?p ?s) \<noteq> writeEnvFile ?p ?s"
  proof
    assume "restoreEnvFile ?p (writeEnvFile ?p ?s) = writeEnvFile ?p ?s"
    then have "fs (restoreEnvFile ?p (writeEnvFile ?p ?s)) (envPath ?p)
                 = fs (writeEnvFile ?p ?s) (envPath ?p)" by simp
    then show False unfolding b c by (simp add: LF_def)
  qed
  show ?thesis using a b c d e by simp
qed

section \<open>Deleting an environment\<close>

lemma getProjects_saveProjects: "getProjects (saveProjects ps st) = ps"
  by (simp add: saveProjects_def Let_def getProjects_def syncAllActiveProjectsToFile_def
      sync_loop_fields updateEnvironmentVariables_fields)

lemma find_update_first:
  assumes "find P xs = Some x" "P (f x)"
  shows "find P (update_first P f xs) = Some (f x)"
  using assms by (induction xs) (auto split: if_splits)

lemma list_all_update_first:
  assumes "list_all Q xs" "\<And>x. Q x \<Longrightarrow> P x \<Longrightarrow> Q (f x)"
  shows "list_all Q (update_first P f xs)"
  using assms by (induction xs) auto

lemma remove_environment_ok: "active_env_exists p \<Longrightarrow> active_env_exists (remove_environment eid p)"
  by (auto simp: active_env_exists_def remove_environment_def Let_def split: option.splits)


text \<open>
  C7. When \<^verbatim>\<open>deleteEnvironment\<close> is called with the id of the project's active
  environment, the project it finds afterwards under the same id has lost every
  environment with that id and has no active environment. And the call keeps the
  invariant of the snapshot: if in every project \<^verbatim>\<open>activeEnvId\<close>, when present, is the id
  of one of the project's environments, then the same is true after the call.
\<close>

theorem deleteEnvironment_repairs_active:
  "(find (\<lambda>q. id_proj q = pid) (getProjects st) = Some p \<and> activeEnvId p = Some eid \<longrightarrow>
      find (\<lambda>q. id_proj q = pid) (getProjects (deleteEnvironment pid eid st))
        = Some (p\<lparr>environments := filter (\<lambda>e. id_env e \<noteq> eid) (environments p),
                   activeEnvId := None\<rparr>))
   \<and> (list_all active_env_exists (getProjects st) \<longrightarrow>
        list_all active_env_exists (getProjects (deleteEnvironment pid eid st)))"
proof (intro conjI impI)
  assume a: "find (\<lambda>q. id_proj q = pid) (getProjects st) = Some p \<and> activeEnvId p = Some eid"
  then have "id_proj p = pid" by (auto dest: find_Some_iff[THEN iffD1])
  then have "id_proj (remove_environment eid p) = pid"
    by (simp add: remove_environment_def Let_def)
  then have "find (\<lambda>q. id_proj q = pid)
        (update_first (\<lambda>q. id_proj q = pid) (remove_environment eid) (getProjects st))
      = Some (remove_environment eid p)"
    using a by (intro find_update_first) simp_all
  moreover have "remove_environment eid p
      = p\<lparr>environments := filter (\<lambda>e. id_env e \<noteq> eid) (environments p), activeEnvId := None\<rparr>"
    using a by (simp add: remove_environment_def Let_def)
  ultimately show "find (\<lambda>q. id_proj q = pid) (getProjects (deleteEnvironment pid eid st))
        = Some (p\<lparr>environments := filter (\<lambda>e. id_env e \<noteq> eid) (environments p),
                   activeEnvId := None\<rparr>)"
    using a by (simp add: deleteEnvironment_def Let_def getProjects_saveProjects)
next
  assume inv: "list_all active_env_exists (getProjects st)"
  show "list_all active_env_exists (getProjects (deleteEnvironment pid eid st))"
  proof (cases "find (\<lambda>q. id_proj q = pid) (getProjects st)")
    case None
    then show ?thesis using inv by (simp add: deleteEnvironment_def Let_def)
  next
    case (Some q)
    have "list_all active_env_exists
            (update_first (\<lambda>q. id_proj q = pid) (remove_environment eid) (getProjects st))"
      using inv by (rule list_all_update_first) (rule remove_environment_ok)
    then show ?thesis using Some
      by (simp add: deleteEnvironment_def Let_def getProjects_saveProjects)
  qed
qed

theorem deleteEnvironment_repairs_active_witness:
  "find (\<lambda>q. id_proj q = ''1'') (getProjects (initial_state [project_with ''/w'' []] Map.empty))
     = Some (project_with ''/w'' [])
   \<and> activeEnvId (project_with ''/w'' []) = Some ''e1''
   \<and> list_all active_env_exists (getProjects (initial_state [project_with ''/w'' []] Map.empty))
   \<and> find (\<lambda>q. id_proj q = ''1'')
        (getProjects (deleteEnvironment ''1'' ''e1'' (initial_state [project_with ''/w'' []] Map.empty)))
     = Some \<lparr>id_proj = ''1'', name_proj = ''app'', path = ''/w'', environments = [],
             activeEnvId = None\<rparr>
   \<and> list_all active_env_exists
        (getProjects (deleteEnvironment ''1'' ''e1'' (initial_state [project_with ''/w'' []] Map.empty)))"
  using deleteEnvironment_repairs_active[of "''1''" "initial_state [project_with ''/w'' []] Map.empty"
      "project_with ''/w'' []" "''e1''"]
  by (simp add: initial_state_def project_with_def getProjects_def active_env_exists_def)

section \<open>Workspace overrides against project values\<close>

text \<open>
  The override set holds one record for a key: \<^verbatim>\<open>addWorkspaceVariable\<close>, its only writer,
  updates the record of a key that is already there.
\<close>

lemma update_first_keeps_keys:
  "map key (update_first (\<lambda>x. key x = k) (\<lambda>x. x\<lparr>value_var := v, enabled := True\<rparr>) vs)
     = map key (vs :: EnvVariable list)"
  by (induction vs) auto

lemma updateEnvironmentVariables_workspaceVars:
  "workspaceVars (updateEnvironmentVariables s) = workspaceVars s"
  by (simp add: updateEnvironmentVariables_def Let_def split: option.splits)

lemma workspaceVars_addWorkspaceVariable:
  "workspaceVars (addWorkspaceVariable k v st) =
     (case find (\<lambda>x. key x = k) (workspaceVars st) of
        Some existing \<Rightarrow>
          update_first (\<lambda>x. key x = k) (\<lambda>x. x\<lparr>value_var := v, enabled := True\<rparr>) (workspaceVars st)
      | None \<Rightarrow> workspaceVars st @ [\<lparr>key = k, value_var = v, enabled = True\<rparr>])"
  by (simp add: addWorkspaceVariable_def Let_def getWorkspaceVariables_def
      updateEnvironmentVariables_workspaceVars)

lemma addWorkspaceVariable_keys_distinct:
  assumes "distinct (map key (workspaceVars st))"
  shows "distinct (map key (workspaceVars (addWorkspaceVariable k v st)))"
proof (cases "find (\<lambda>x. key x = k) (workspaceVars st)")
  case None
  then have "k \<notin> key ` set (workspaceVars st)"
    unfolding find_None_iff by blast
  then show ?thesis using assms None
    by (simp add: workspaceVars_addWorkspaceVariable)
next
  case (Some x)
  then show ?thesis using assms
    by (simp add: workspaceVars_addWorkspaceVariable update_first_keeps_keys)
qed

lemma replace_enabled_hit:
  "enabled x \<Longrightarrow> key x = k \<Longrightarrow> replace_enabled x c k = Some (value_var x)"
  by (simp add: replace_enabled_def)

lemma replace_enabled_skip:
  "\<not> (enabled x \<and> key x = k) \<Longrightarrow> replace_enabled x c k = c k"
  by (auto simp: replace_enabled_def)

lemma fold_replace_enabled_last_wins:
  assumes "v \<in> set vs" "enabled v"
    and "\<forall>w\<in>set vs. enabled w \<and> key w = key v \<longrightarrow> value_var w = value_var v"
  shows "fold replace_enabled vs c (key v) = Some (value_var v)"
  using assms
proof (induction vs rule: rev_induct)
  case Nil
  then show ?case by simp
next
  case (snoc x xs)
  show ?case
  proof (cases "enabled x \<and> key x = key v")
    case True
    then have "value_var x = value_var v" using snoc.prems(3) by simp
    then show ?thesis using True by (simp add: replace_enabled_hit)
  next
    case False
    have "v \<noteq> x" using False snoc.prems(2) by blast
    then have "v \<in> set xs" using snoc.prems(1) by simp
    moreover have "\<forall>w\<in>set xs. enabled w \<and> key w = key v \<longrightarrow> value_var w = value_var v"
      using snoc.prems(3) by simp
    ultimately have "fold replace_enabled xs c (key v) = Some (value_var v)"
      using snoc.prems(2) by (intro snoc.IH)
    then show ?thesis using False by (simp add: replace_enabled_skip)
  qed
qed

lemma distinct_keys_agree:
  assumes "distinct (map key vs)" "v \<in> set vs"
  shows "\<forall>w\<in>set vs. enabled w \<and> key w = key v \<longrightarrow> value_var w = value_var v"
proof (intro ballI impI)
  fix w
  assume w: "w \<in> set vs" and same: "enabled w \<and> key w = key v"
  have "inj_on key (set vs)" using assms(1) by (simp add: distinct_map)
  then have "w = v" using w assms(2) same by (auto dest: inj_onD)
  then show "value_var w = value_var v" by simp
qed

lemma replace_enabled_dom: "dom c \<subseteq> dom (replace_enabled v c)"
  by (cases "enabled v") (auto simp: replace_enabled_def)

lemma fold_replace_enabled_dom: "dom c \<subseteq> dom (fold replace_enabled vs c)"
proof (induction vs arbitrary: c)
  case Nil
  then show ?case by simp
next
  case (Cons x xs)
  have "dom c \<subseteq> dom (replace_enabled x c)" by (rule replace_enabled_dom)
  also have "\<dots> \<subseteq> dom (fold replace_enabled xs (replace_enabled x c))" by (rule Cons.IH)
  finally show ?case by simp
qed

lemma fold_replace_enabled_sets:
  "v \<in> set vs \<Longrightarrow> enabled v \<Longrightarrow> key v \<in> dom (fold replace_enabled vs c)"
proof (induction vs arbitrary: c)
  case Nil
  then show ?case by simp
next
  case (Cons x xs)
  show ?case
  proof (cases "x = v")
    case True
    then have "key v \<in> dom (replace_enabled x c)"
      using Cons.prems(2) by (simp add: replace_enabled_hit domIff)
    then have "key v \<in> dom (fold replace_enabled xs (replace_enabled x c))"
      using fold_replace_enabled_dom by blast
    then show ?thesis by simp
  next
    case False
    then have "v \<in> set xs" using Cons.prems(1) by simp
    then have "key v \<in> dom (fold replace_enabled xs (replace_enabled x c))"
      using Cons.prems(2) by (rule Cons.IH)
    then show ?thesis by simp
  qed
qed

lemma inject_folder_dom: "dom c \<subseteq> dom (inject_folder ps f c)"
proof (cases "find (\<lambda>p. toLowerCase (path p) = toLowerCase f) ps")
  case None
  then show ?thesis by (simp add: inject_folder_def)
next
  case (Some mp)
  show ?thesis
  proof (cases "find_active_env mp")
    case None
    then show ?thesis using Some by (simp add: inject_folder_def)
  next
    case (Some env)
    then show ?thesis using \<open>find _ ps = Some mp\<close> fold_replace_enabled_dom[of c "variables env"]
      by (simp add: inject_folder_def)
  qed
qed

lemma fold_inject_folder_dom: "dom c \<subseteq> dom (fold (inject_folder ps) fds c)"
proof (induction fds arbitrary: c)
  case Nil
  then show ?case by simp
next
  case (Cons f fds)
  have "dom c \<subseteq> dom (inject_folder ps f c)" by (rule inject_folder_dom)
  also have "\<dots> \<subseteq> dom (fold (inject_folder ps) fds (inject_folder ps f c))" by (rule Cons.IH)
  finally show ?case by simp
qed

lemma fold_inject_folder_sets:
  assumes "folder \<in> set folders"
    and "find (\<lambda>p. toLowerCase (path p) = toLowerCase folder) ps = Some project"
    and "truthy (activeEnvId project)" "find_active_env project = Some env"
    and "v \<in> set (variables env)" "enabled v"
  shows "key v \<in> dom (fold (inject_folder ps) folders c)"
  using assms(1)
proof (induction folders arbitrary: c)
  case Nil
  then show ?case by simp
next
  case (Cons f fds)
  show ?case
  proof (cases "f = folder")
    case True
    have "key v \<in> dom (fold replace_enabled (variables env) c)"
      using assms(5,6) by (rule fold_replace_enabled_sets)
    then have "key v \<in> dom (inject_folder ps f c)"
      using assms(2-4) True by (simp add: inject_folder_def)
    then have "key v \<in> dom (fold (inject_folder ps) fds (inject_folder ps f c))"
      using fold_inject_folder_dom by blast
    then show ?thesis by simp
  next
    case False
    then have "folder \<in> set fds" using Cons.prems by simp
    then have "key v \<in> dom (fold (inject_folder ps) fds (inject_folder ps f c))"
      by (rule Cons.IH)
    then show ?thesis by simp
  qed
qed


text \<open>
  C1. The extension is in terminal mode and \<open>folder\<close> is one of the workspace folders.
  A project whose path is that of the folder, up to the case of the letters, has an
  active environment with an enabled variable \<open>v1\<close>, and the override set, with one record
  for a key, holds an enabled variable \<open>v2\<close> with the key of \<open>v1\<close>. Then in the overlay that
  \<^verbatim>\<open>updateEnvironmentVariables\<close> leaves the key has the value of \<open>v2\<close>. When the project
  is the one that the loop over the folders finds for the folder, that loop has given
  the key a value, which the override replaces.
\<close>

theorem workspace_override_wins:
  assumes mode: "syncMode st = Terminal"
    and folders: "workspaceFolders st = Some folders" "folder \<in> set folders"
    and matching: "project \<in> set (getProjects st)" "toLowerCase (path project) = toLowerCase folder"
    and active: "truthy (activeEnvId project)" "find_active_env project = Some env"
    and v1: "v1 \<in> set (variables env)" "enabled v1"
    and v2: "v2 \<in> set (workspaceVars st)" "enabled v2" "key v2 = key v1"
    and keys: "distinct (map key (workspaceVars st))"
  shows "collection (updateEnvironmentVariables st) (key v1) = Some (value_var v2)
       \<and> (find (\<lambda>p. toLowerCase (path p) = toLowerCase folder) (getProjects st) = Some project
            \<longrightarrow> fold (inject_folder (getProjects st)) folders Map.empty (key v1) \<noteq> None)"
proof -
  have project_value:
    "fold (inject_folder (getProjects st)) folders Map.empty (key v1) \<noteq> None"
    if "find (\<lambda>p. toLowerCase (path p) = toLowerCase folder) (getProjects st) = Some project"
  proof -
    have "key v1 \<in> dom (fold (inject_folder (getProjects st)) folders Map.empty)"
      using folders(2) that active v1 by (rule fold_inject_folder_sets)
    then show ?thesis by (simp add: domIff)
  qed
  have nonempty: "length (workspaceVars st) > 0" using v2(1) by (cases "workspaceVars st") auto
  have "fold replace_enabled (workspaceVars st)
          (fold (inject_folder (getProjects st)) folders Map.empty) (key v2) = Some (value_var v2)"
    using v2(1,2) distinct_keys_agree[OF keys v2(1)] by (rule fold_replace_enabled_last_wins)
  then have "collection (updateEnvironmentVariables st) (key v1) = Some (value_var v2)"
    using mode folders(1) nonempty v2(3)
    by (simp add: updateEnvironmentVariables_def Let_def getWorkspaceVariables_def)
  then show ?thesis using project_value by simp
qed

theorem workspace_override_wins_witness:
  "syncMode ((initial_state [project_with ''/w'' [var ''K'' ''V1'']] Map.empty)
       \<lparr>workspaceVars := [var ''K'' ''V2''], workspaceFolders := Some [''/W'']\<rparr>) = Terminal
   \<and> project_with ''/w'' [var ''K'' ''V1'']
       \<in> set (getProjects ((initial_state [project_with ''/w'' [var ''K'' ''V1'']] Map.empty)
           \<lparr>workspaceVars := [var ''K'' ''V2''], workspaceFolders := Some [''/W'']\<rparr>))
   \<and> toLowerCase (path (project_with ''/w'' [var ''K'' ''V1''])) = toLowerCase ''/W''
   \<and> find (\<lambda>p. toLowerCase (path p) = toLowerCase ''/W'')
        (getProjects ((initial_state [project_with ''/w'' [var ''K'' ''V1'']] Map.empty)
           \<lparr>workspaceVars := [var ''K'' ''V2''], workspaceFolders := Some [''/W'']\<rparr>))
       = Some (project_with ''/w'' [var ''K'' ''V1''])
   \<and> truthy (activeEnvId (project_with ''/w'' [var ''K'' ''V1'']))
   \<and> find_active_env (project_with ''/w'' [var ''K'' ''V1''])
       = Some \<lparr>id_env = ''e1'', name_env = ''dev'', variables = [var ''K'' ''V1'']\<rparr>
   \<and> enabled (var ''K'' ''V1'') \<and> enabled (var ''K'' ''V2'')
   \<and> key (var ''K'' ''V2'') = key (var ''K'' ''V1'')
   \<and> distinct (map key [var ''K'' ''V2''])
   \<and> fold (inject_folder (getProjects ((initial_state [project_with ''/w'' [var ''K'' ''V1'']] Map.empty)
           \<lparr>workspaceVars := [var ''K'' ''V2''], workspaceFolders := Some [''/W'']\<rparr>)))
        [''/W''] Map.empty ''K'' \<noteq> None
   \<and> collection (updateEnvironmentVariables
          ((initial_state [project_with ''/w'' [var ''K'' ''V1'']] Map.empty)
             \<lparr>workspaceVars := [var ''K'' ''V2''], workspaceFolders := Some [''/W'']\<rparr>)) ''K''
       = Some ''V2''"
proof -
  let ?p = "project_with ''/w'' [var ''K'' ''V1'']"
  let ?e = "\<lparr>id_env = ''e1'', name_env = ''dev'', variables = [var ''K'' ''V1'']\<rparr>"
  let ?s = "(initial_state [?p] Map.empty)
              \<lparr>workspaceVars := [var ''K'' ''V2''], workspaceFolders := Some [''/W'']\<rparr>"
  have lower: "toLowerCase ''/W'' = toLowerCase ''/w''" by code_simp
  have mode: "syncMode ?s = Terminal"
    and folders: "workspaceFolders ?s = Some [''/W'']" "''/W'' \<in> set [''/W'']"
    and matching: "?p \<in> set (getProjects ?s)" "toLowerCase (path ?p) = toLowerCase ''/W''"
    and first: "find (\<lambda>p. toLowerCase (path p) = toLowerCase ''/W'') (getProjects ?s) = Some ?p"
    and active: "truthy (activeEnvId ?p)" "find_active_env ?p = Some ?e"
    and v1: "var ''K'' ''V1'' \<in> set (variables ?e)" "enabled (var ''K'' ''V1'')"
    and v2: "var ''K'' ''V2'' \<in> set (workspaceVars ?s)" "enabled (var ''K'' ''V2'')"
      "key (var ''K'' ''V2'') = key (var ''K'' ''V1'')"
    and keys: "distinct (map key (workspaceVars ?s))"
    by (simp_all add: initial_state_def project_with_def var_def getProjects_def truthy_def
        find_active_env_def lower)
  show ?thesis
    using workspace_override_wins[OF mode folders matching active v1 v2 keys]
      mode matching first active v1 v2
    by (simp add: var_def)
qed

section \<open>The merge of the managed variables into the target file\<close>

text \<open>The first loop adds one line for each line it reads.\<close>

lemma fst_process_line:
  "fst (process_line ev l acc) = fst acc @ [last (fst (process_line ev l ([], {})))]"
  by (simp add: process_line_def Let_def split: option.splits prod.splits)

lemma fst_fold_process_line:
  "fst (fold (process_line ev) ls acc)
     = fst acc @ map (\<lambda>l. last (fst (process_line ev l ([], {})))) ls"
proof (induction ls arbitrary: acc)
  case Nil
  then show ?case by simp
next
  case (Cons l ls)
  have "fst (fold (process_line ev) (l # ls) acc)
          = fst (process_line ev l acc) @ map (\<lambda>l. last (fst (process_line ev l ([], {})))) ls"
    using Cons.IH[of "process_line ev l acc"] by simp
  also have "\<dots> = fst acc @ map (\<lambda>l. last (fst (process_line ev l ([], {})))) (l # ls)"
    by (subst fst_process_line) simp
  finally show ?case .
qed

lemma process_line_kept:
  assumes "is_comment l \<or> is_blank l \<or> assigned_key l = None
           \<or> (\<exists>k. assigned_key l = Some k \<and> find (\<lambda>v. key v = k) ev = None)"
  shows "last (fst (process_line ev l ([], {}))) = l"
  using assms
  by (auto simp: process_line_def Let_def is_comment_def is_blank_def assigned_key_def
      match_assignment_def split: option.splits prod.splits)

lemma process_line_replaced:
  assumes "\<not> is_comment l" "assigned_key l = Some k" "find (\<lambda>v. key v = k) ev = Some mv"
  shows "last (fst (process_line ev l ([], {}))) = render_line k (value_var mv)"
  using assms
  by (auto simp: process_line_def Let_def is_comment_def assigned_key_def
      split: option.splits prod.splits)

lemma process_line_cases:
  "last (fst (process_line ev l ([], {}))) = l
   \<or> (\<exists>mv\<in>set ev. last (fst (process_line ev l ([], {}))) = render_line (key mv) (value_var mv))"
proof (cases "is_comment l \<or> assigned_key l = None")
  case True
  then show ?thesis using process_line_kept[of l ev] by blast
next
  case False
  then obtain k where k: "assigned_key l = Some k" and nc: "\<not> is_comment l" by auto
  show ?thesis
  proof (cases "find (\<lambda>v. key v = k) ev")
    case None
    then show ?thesis using process_line_kept[of l ev] k by blast
  next
    case (Some mv)
    then have "mv \<in> set ev" "key mv = k"
      by (auto simp: find_Some_iff)
    then show ?thesis using process_line_replaced[OF nc k Some] by blast
  qed
qed

text \<open>The second loop adds the lines of the variables whose key was not met.\<close>

lemma fold_append_new:
  "fold (append_new S) vs nl
     = nl @ map (\<lambda>v. render_line (key v) (value_var v)) (filter (\<lambda>v. key v \<notin> S) vs)"
  by (induction vs arbitrary: nl) (simp_all add: append_new_def)

lemma merge_lines_shape:
  "\<exists>S. merge_lines vars ls
     = map (\<lambda>l. last (fst (process_line (filter enabled vars) l ([], {})))) ls
       @ map (\<lambda>v. render_line (key v) (value_var v))
           (filter (\<lambda>v. key v \<notin> S) (filter enabled vars))"
  by (simp add: merge_lines_def Let_def fold_append_new fst_fold_process_line) blast

lemma merge_lines_length: "length ls \<le> length (merge_lines vars ls)"
proof -
  obtain S where "merge_lines vars ls
     = map (\<lambda>l. last (fst (process_line (filter enabled vars) l ([], {})))) ls
       @ map (\<lambda>v. render_line (key v) (value_var v))
           (filter (\<lambda>v. key v \<notin> S) (filter enabled vars))"
    using merge_lines_shape by blast
  then show ?thesis by simp
qed

lemma merge_lines_nth:
  assumes "i < length ls"
  shows "merge_lines vars ls ! i = last (fst (process_line (filter enabled vars) (ls ! i) ([], {})))"
proof -
  obtain S where "merge_lines vars ls
     = map (\<lambda>l. last (fst (process_line (filter enabled vars) l ([], {})))) ls
       @ map (\<lambda>v. render_line (key v) (value_var v))
           (filter (\<lambda>v. key v \<notin> S) (filter enabled vars))"
    using merge_lines_shape by blast
  then show ?thesis using assms by (simp add: nth_append)
qed

lemma merge_lines_origin:
  assumes "i < length (merge_lines vars ls)"
  shows "(i < length ls \<and> merge_lines vars ls ! i = ls ! i)
       \<or> (\<exists>x\<in>set vars. enabled x \<and> merge_lines vars ls ! i = render_line (key x) (value_var x))"
proof -
  let ?ev = "filter enabled vars"
  obtain S where shape: "merge_lines vars ls
     = map (\<lambda>l. last (fst (process_line ?ev l ([], {})))) ls
       @ map (\<lambda>v. render_line (key v) (value_var v)) (filter (\<lambda>v. key v \<notin> S) ?ev)"
    using merge_lines_shape by blast
  show ?thesis
  proof (cases "i < length ls")
    case True
    then have "merge_lines vars ls ! i = last (fst (process_line ?ev (ls ! i) ([], {})))"
      by (rule merge_lines_nth)
    then show ?thesis using process_line_cases[of ?ev "ls ! i"] True by auto
  next
    case False
    let ?extra = "filter (\<lambda>v. key v \<notin> S) ?ev"
    have j: "i - length ls < length ?extra" using assms False unfolding shape by simp
    have "merge_lines vars ls ! i
            = render_line (key (?extra ! (i - length ls))) (value_var (?extra ! (i - length ls)))"
      using False j unfolding shape by (simp add: nth_append)
    moreover have "?extra ! (i - length ls) \<in> set ?extra" using j by (rule nth_mem)
    ultimately show ?thesis by auto
  qed
qed

lemma writeEnvFile_target:
  assumes "truthy (activeEnvId p)" "find_active_env p = Some env"
  shows "fs (writeEnvFile p st) (envPath p)
     = Some (join_lines (merge_lines (variables env)
               (split_lines (case fs st (envPath p) of None \<Rightarrow> [] | Some c \<Rightarrow> c))))"
  by (simp add: writeEnvFile_fs[OF assms] split: option.splits)


text \<open>
  C2. \<^verbatim>\<open>writeEnvFile\<close> runs for a project with an active environment; \<open>lines\<close> are the
  lines of the target file (of the empty content when the file is missing) and \<open>out\<close> the
  lines it builds, which it writes joined by line feeds. The lines built start with one
  line for each line of the file, in the same order. At the position of a line that is a
  comment, is blank, or assigns a key that no enabled variable of the environment has,
  the line built is the line of the file, character for character. At the position of a
  line that is no comment and assigns the key of an enabled variable, the line built is
  the key, an equals sign and the value of the first such variable between double quotes,
  its double quotes escaped by a backslash (the value \<open>a"b\<close> of the key \<open>K\<close> gives the
  line \<open>K="a\"b"\<close>). In particular the lines \<open># comment\<close>,
  \<open>FOO=bar\<close>, \<open>UNMANAGED=zzz\<close> with the managed variable \<open>FOO = baz\<close> give \<open># comment\<close>,
  \<open>FOO="baz"\<close>, \<open>UNMANAGED=zzz\<close>, as lines and as the content of the file written.
\<close>

theorem writeEnvFile_keeps_unmanaged_lines:
  assumes active: "truthy (activeEnvId p)" "find_active_env p = Some env"
    and lines: "lines = split_lines (case fs st (envPath p) of None \<Rightarrow> [] | Some c \<Rightarrow> c)"
    and out: "out = merge_lines (variables env) lines"
  shows "fs (writeEnvFile p st) (envPath p) = Some (join_lines out)
       \<and> length lines \<le> length out
       \<and> (\<forall>i<length lines.
            is_comment (lines ! i) \<or> is_blank (lines ! i)
            \<or> (\<exists>k. assigned_key (lines ! i) = Some k
                    \<and> k \<notin> key ` set (filter enabled (variables env)))
            \<longrightarrow> out ! i = lines ! i)
       \<and> (\<forall>i<length lines. \<forall>k mv.
            \<not> is_comment (lines ! i) \<and> assigned_key (lines ! i) = Some k
            \<and> find (\<lambda>v. key v = k) (filter enabled (variables env)) = Some mv
            \<longrightarrow> out ! i = render_line k (value_var mv))
       \<and> render_line ''K'' [CHR ''a'', DQUOTE, CHR ''b'']
           = ''K='' @ [DQUOTE, CHR ''a'', BACKSLASH, DQUOTE, CHR ''b'', DQUOTE]
       \<and> merge_lines [var ''FOO'' ''baz''] [''# comment'', ''FOO=bar'', ''UNMANAGED=zzz'']
           = [''# comment'', ''FOO='' @ DQUOTE # ''baz'' @ [DQUOTE], ''UNMANAGED=zzz'']
       \<and> fs (writeEnvFile (project_with ''/w'' [var ''FOO'' ''baz''])
               (initial_state [] [''/w/.env'' \<mapsto> ''# comment'' @ LF # ''FOO=bar'' @ LF # ''UNMANAGED=zzz'']))
             (envPath (project_with ''/w'' [var ''FOO'' ''baz'']))
           = Some (''# comment'' @ LF # ''FOO='' @ DQUOTE # ''baz'' @ DQUOTE # LF # ''UNMANAGED=zzz'')"
proof -
  let ?ev = "filter enabled (variables env)"
  have written: "fs (writeEnvFile p st) (envPath p) = Some (join_lines out)"
    unfolding out lines by (rule writeEnvFile_target[OF active])
  have len: "length lines \<le> length out"
    unfolding out by (rule merge_lines_length)
  have kept: "out ! i = lines ! i"
    if i: "i < length lines"
      and c: "is_comment (lines ! i) \<or> is_blank (lines ! i)
              \<or> (\<exists>k. assigned_key (lines ! i) = Some k \<and> k \<notin> key ` set ?ev)" for i
  proof -
    have "find (\<lambda>v. key v = k) ?ev = None" if "k \<notin> key ` set ?ev" for k
      using that unfolding find_None_iff by blast
    then have "is_comment (lines ! i) \<or> is_blank (lines ! i) \<or> assigned_key (lines ! i) = None
           \<or> (\<exists>k. assigned_key (lines ! i) = Some k \<and> find (\<lambda>v. key v = k) ?ev = None)"
      using c by blast
    then have "last (fst (process_line ?ev (lines ! i) ([], {}))) = lines ! i"
      by (rule process_line_kept)
    then show ?thesis unfolding out using merge_lines_nth[OF i] by simp
  qed
  have replaced: "out ! i = render_line k (value_var mv)"
    if i: "i < length lines"
      and c: "\<not> is_comment (lines ! i)" "assigned_key (lines ! i) = Some k"
        "find (\<lambda>v. key v = k) ?ev = Some mv" for i k mv
    unfolding out using merge_lines_nth[OF i] process_line_replaced[OF c] by simp
  have example: "merge_lines [var ''FOO'' ''baz''] [''# comment'', ''FOO=bar'', ''UNMANAGED=zzz'']
           = [''# comment'', ''FOO='' @ DQUOTE # ''baz'' @ [DQUOTE], ''UNMANAGED=zzz'']"
    by (simp add: write_eval)
  have example_file: "fs (writeEnvFile (project_with ''/w'' [var ''FOO'' ''baz''])
               (initial_state [] [''/w/.env'' \<mapsto> ''# comment'' @ LF # ''FOO=bar'' @ LF # ''UNMANAGED=zzz'']))
             (envPath (project_with ''/w'' [var ''FOO'' ''baz'']))
           = Some (''# comment'' @ LF # ''FOO='' @ DQUOTE # ''baz'' @ DQUOTE # LF # ''UNMANAGED=zzz'')"
    by (simp add: write_eval)
  have escaped: "render_line ''K'' [CHR ''a'', DQUOTE, CHR ''b'']
           = ''K='' @ [DQUOTE, CHR ''a'', BACKSLASH, DQUOTE, CHR ''b'', DQUOTE]"
    by (simp add: render_line_def escape_quotes_def DQUOTE_def BACKSLASH_def)
  show ?thesis using written len kept replaced escaped example example_file by blast
qed

theorem writeEnvFile_keeps_unmanaged_lines_witness:
  "truthy (activeEnvId (project_with ''/w'' [var ''FOO'' ''baz'']))
   \<and> find_active_env (project_with ''/w'' [var ''FOO'' ''baz''])
       = Some \<lparr>id_env = ''e1'', name_env = ''dev'', variables = [var ''FOO'' ''baz'']\<rparr>
   \<and> split_lines (''# comment'' @ LF # ''FOO=bar'' @ LF # ''UNMANAGED=zzz'')
       = [''# comment'', ''FOO=bar'', ''UNMANAGED=zzz'']
   \<and> is_comment ''# comment''
   \<and> assigned_key ''UNMANAGED=zzz'' = Some ''UNMANAGED''
   \<and> ''UNMANAGED'' \<notin> key ` set (filter enabled [var ''FOO'' ''baz''])
   \<and> \<not> is_comment ''FOO=bar''
   \<and> assigned_key ''FOO=bar'' = Some ''FOO''
   \<and> find (\<lambda>v. key v = ''FOO'') (filter enabled [var ''FOO'' ''baz'']) = Some (var ''FOO'' ''baz'')
   \<and> merge_lines [var ''FOO'' ''baz''] [''# comment'', ''FOO=bar'', ''UNMANAGED=zzz''] ! 0
       = ''# comment''
   \<and> merge_lines [var ''FOO'' ''baz''] [''# comment'', ''FOO=bar'', ''UNMANAGED=zzz''] ! 1
       = render_line ''FOO'' ''baz''
   \<and> merge_lines [var ''FOO'' ''baz''] [''# comment'', ''FOO=bar'', ''UNMANAGED=zzz''] ! 2
       = ''UNMANAGED=zzz''"
proof -
  let ?p = "project_with ''/w'' [var ''FOO'' ''baz'']"
  let ?e = "\<lparr>id_env = ''e1'', name_env = ''dev'', variables = [var ''FOO'' ''baz'']\<rparr>"
  let ?s = "initial_state [] [''/w/.env'' \<mapsto> ''# comment'' @ LF # ''FOO=bar'' @ LF # ''UNMANAGED=zzz'']"
  let ?ls = "[''# comment'', ''FOO=bar'', ''UNMANAGED=zzz'']"
  let ?out = "merge_lines (variables ?e) ?ls"
  have active: "truthy (activeEnvId ?p)" "find_active_env ?p = Some ?e"
    by (simp_all add: project_with_def truthy_def find_active_env_def)
  have split: "split_lines (''# comment'' @ LF # ''FOO=bar'' @ LF # ''UNMANAGED=zzz'') = ?ls"
    by (simp add: LF_def CR_def)
  have lines: "?ls = split_lines (case fs ?s (envPath ?p) of None \<Rightarrow> [] | Some c \<Rightarrow> c)"
    by (simp add: initial_state_def project_with_def envPath_def path_join_w LF_def CR_def)
  have c0: "is_comment ''# comment''"
    and c1: "\<not> is_comment ''FOO=bar''" "assigned_key ''FOO=bar'' = Some ''FOO''"
      "find (\<lambda>v. key v = ''FOO'') (filter enabled (variables ?e)) = Some (var ''FOO'' ''baz'')"
    and c2: "assigned_key ''UNMANAGED=zzz'' = Some ''UNMANAGED''"
      "''UNMANAGED'' \<notin> key ` set (filter enabled (variables ?e))"
    by (simp_all add: is_comment_def assigned_key_def trim_def is_ws_def startsWith_hash_def
        match_assignment_def is_line_terminator_def LF_def CR_def var_def)
  note inst = writeEnvFile_keeps_unmanaged_lines[OF active lines refl]
  from inst have kept: "\<forall>i<length ?ls.
            is_comment (?ls ! i) \<or> is_blank (?ls ! i)
            \<or> (\<exists>k. assigned_key (?ls ! i) = Some k
                    \<and> k \<notin> key ` set (filter enabled (variables ?e)))
            \<longrightarrow> ?out ! i = ?ls ! i"
    by blast
  from inst have replaced: "\<forall>i<length ?ls. \<forall>k mv.
            \<not> is_comment (?ls ! i) \<and> assigned_key (?ls ! i) = Some k
            \<and> find (\<lambda>v. key v = k) (filter enabled (variables ?e)) = Some mv
            \<longrightarrow> ?out ! i = render_line k (value_var mv)"
    by blast
  have o0: "?out ! 0 = ''# comment''" using kept[rule_format, of 0] c0 by simp
  have o2: "?out ! 2 = ''UNMANAGED=zzz''" using kept[rule_format, of 2] c2 by simp
  have o1: "?out ! 1 = render_line ''FOO'' ''baz''"
    using replaced[rule_format, of 1 "''FOO''" "var ''FOO'' ''baz''"] c1 by (simp add: var_def)
  show ?thesis using active split c0 c1 c2 o0 o1 o2 by simp
qed


section \<open>Disabled variables\<close>

lemma fold_replace_enabled_origin:
  assumes "fold replace_enabled vs c k = Some v"
  shows "c k = Some v \<or> (\<exists>x\<in>set vs. enabled x \<and> key x = k \<and> value_var x = v)"
  using assms
proof (induction vs rule: rev_induct)
  case Nil
  then show ?case by simp
next
  case (snoc x xs)
  show ?case
  proof (cases "enabled x \<and> key x = k")
    case True
    then have "value_var x = v" using snoc.prems by (simp add: replace_enabled_hit)
    then show ?thesis using True by auto
  next
    case False
    then have "fold replace_enabled xs c k = Some v"
      using snoc.prems by (simp add: replace_enabled_skip)
    then show ?thesis using snoc.IH by auto
  qed
qed

lemma inject_folder_origin:
  assumes "inject_folder ps f c k = Some v"
  shows "c k = Some v
       \<or> (\<exists>p\<in>set ps. \<exists>env x. find_active_env p = Some env \<and> x \<in> set (variables env)
             \<and> enabled x \<and> key x = k \<and> value_var x = v)"
proof (cases "find (\<lambda>p. toLowerCase (path p) = toLowerCase f) ps")
  case None
  then show ?thesis using assms by (simp add: inject_folder_def)
next
  case (Some mp)
  then have mem: "mp \<in> set ps" by (auto simp: find_Some_iff)
  show ?thesis
  proof (cases "truthy (activeEnvId mp) \<and> find_active_env mp \<noteq> None")
    case False
    then show ?thesis using assms Some
      by (auto simp: inject_folder_def split: option.splits if_splits)
  next
    case True
    then obtain env where env: "find_active_env mp = Some env" by auto
    have "fold replace_enabled (variables env) c k = Some v"
      using assms Some True env by (simp add: inject_folder_def)
    then show ?thesis using fold_replace_enabled_origin mem env by blast
  qed
qed

lemma fold_inject_folder_origin:
  assumes "fold (inject_folder ps) fds c k = Some v"
  shows "c k = Some v
       \<or> (\<exists>p\<in>set ps. \<exists>env x. find_active_env p = Some env \<and> x \<in> set (variables env)
             \<and> enabled x \<and> key x = k \<and> value_var x = v)"
  using assms
proof (induction fds arbitrary: c)
  case Nil
  then show ?case by simp
next
  case (Cons f fds)
  then have "inject_folder ps f c k = Some v
       \<or> (\<exists>p\<in>set ps. \<exists>env x. find_active_env p = Some env \<and> x \<in> set (variables env)
             \<and> enabled x \<and> key x = k \<and> value_var x = v)"
    by simp
  then show ?case using inject_folder_origin by blast
qed

lemma collection_origin:
  assumes "collection (updateEnvironmentVariables st) k = Some v"
  shows "\<exists>x. enabled x \<and> key x = k \<and> value_var x = v
           \<and> (x \<in> set (workspaceVars st)
               \<or> (\<exists>p\<in>set (getProjects st). \<exists>env. find_active_env p = Some env
                     \<and> x \<in> set (variables env)))"
proof (cases "syncMode st = File \<or> workspaceFolders st = None")
  case True
  then show ?thesis using assms
    by (auto simp: updateEnvironmentVariables_def Let_def split: option.splits if_splits)
next
  case False
  then obtain folders where f: "workspaceFolders st = Some folders" and m: "syncMode st \<noteq> File"
    by auto
  let ?c1 = "fold (inject_folder (getProjects st)) folders Map.empty"
  have "fold replace_enabled (workspaceVars st) ?c1 k = Some v \<or> ?c1 k = Some v"
    using assms f m
    by (auto simp: updateEnvironmentVariables_def Let_def getWorkspaceVariables_def split: if_splits)
  then have "?c1 k = Some v
      \<or> (\<exists>x\<in>set (workspaceVars st). enabled x \<and> key x = k \<and> value_var x = v)"
    using fold_replace_enabled_origin by blast
  then show ?thesis using fold_inject_folder_origin[of "getProjects st" folders Map.empty k v]
    by auto
qed


text \<open>
  C8. Every entry of the overlay that \<^verbatim>\<open>updateEnvironmentVariables\<close> leaves is the key
  and value of an enabled record, among the overrides or in the active environment of a
  project: a record that is not enabled puts nothing into the overlay. The content that
  \<^verbatim>\<open>writeEnvFile\<close> writes is built by the merge from the lines of the target; the merge
  gives the same lines with and without the records that are not enabled, and each line
  it gives is the line of the target at the same position or the line of an enabled
  variable: no line is replaced by, or added for, a record that is not enabled.
\<close>

theorem disabled_variables_not_projected:
  "(\<forall>k v. collection (updateEnvironmentVariables st) k = Some v \<longrightarrow>
      (\<exists>x. enabled x \<and> key x = k \<and> value_var x = v
           \<and> (x \<in> set (workspaceVars st)
               \<or> (\<exists>p\<in>set (getProjects st). \<exists>env. find_active_env p = Some env
                     \<and> x \<in> set (variables env)))))
   \<and> (truthy (activeEnvId p) \<and> find_active_env p = Some env \<longrightarrow>
        fs (writeEnvFile p st) (envPath p)
          = Some (join_lines (merge_lines (variables env)
               (split_lines (case fs st (envPath p) of None \<Rightarrow> [] | Some c \<Rightarrow> c)))))
   \<and> merge_lines vars lines = merge_lines (filter enabled vars) lines
   \<and> (\<forall>i<length (merge_lines vars lines).
        (i < length lines \<and> merge_lines vars lines ! i = lines ! i)
        \<or> (\<exists>x\<in>set vars. enabled x
              \<and> merge_lines vars lines ! i = render_line (key x) (value_var x)))"
proof -
  have same: "merge_lines vars lines = merge_lines (filter enabled vars) lines"
    by (simp add: merge_lines_def)
  show ?thesis
    using collection_origin writeEnvFile_target merge_lines_origin same by blast
qed

theorem disabled_variables_not_projected_witness:
  "truthy (activeEnvId (project_with ''/w'' [var ''FOO'' ''baz'', (var ''OFF'' ''1'')\<lparr>enabled := False\<rparr>]))
   \<and> find_active_env (project_with ''/w'' [var ''FOO'' ''baz'', (var ''OFF'' ''1'')\<lparr>enabled := False\<rparr>])
       = Some \<lparr>id_env = ''e1'', name_env = ''dev'',
               variables = [var ''FOO'' ''baz'', (var ''OFF'' ''1'')\<lparr>enabled := False\<rparr>]\<rparr>
   \<and> collection (updateEnvironmentVariables
        ((initial_state [project_with ''/w'' [var ''FOO'' ''baz'', (var ''OFF'' ''1'')\<lparr>enabled := False\<rparr>]]
            [''/w/.env'' \<mapsto> ''OFF=0''])\<lparr>workspaceFolders := Some [''/w'']\<rparr>)) ''OFF'' = None
   \<and> fs (writeEnvFile (project_with ''/w'' [var ''FOO'' ''baz'', (var ''OFF'' ''1'')\<lparr>enabled := False\<rparr>])
        ((initial_state [project_with ''/w'' [var ''FOO'' ''baz'', (var ''OFF'' ''1'')\<lparr>enabled := False\<rparr>]]
            [''/w/.env'' \<mapsto> ''OFF=0''])\<lparr>workspaceFolders := Some [''/w'']\<rparr>))
        (envPath (project_with ''/w'' [var ''FOO'' ''baz'', (var ''OFF'' ''1'')\<lparr>enabled := False\<rparr>]))
       = Some (join_lines (merge_lines [var ''FOO'' ''baz''] [''OFF=0'']))
   \<and> merge_lines [var ''FOO'' ''baz'', (var ''OFF'' ''1'')\<lparr>enabled := False\<rparr>] [''OFF=0'']
       = merge_lines [var ''FOO'' ''baz''] [''OFF=0'']"
proof -
  let ?off = "(var ''OFF'' ''1'')\<lparr>enabled := False\<rparr>"
  let ?vs = "[var ''FOO'' ''baz'', ?off]"
  let ?p = "project_with ''/w'' ?vs"
  let ?e = "\<lparr>id_env = ''e1'', name_env = ''dev'', variables = ?vs\<rparr>"
  let ?s = "(initial_state [?p] [''/w/.env'' \<mapsto> ''OFF=0''])\<lparr>workspaceFolders := Some [''/w'']\<rparr>"
  note inst = disabled_variables_not_projected[of ?s ?p ?e ?vs "[''OFF=0'']"]
  have active: "truthy (activeEnvId ?p)" "find_active_env ?p = Some ?e"
    by (simp_all add: project_with_def truthy_def find_active_env_def)
  have only: "find_active_env q = Some env \<Longrightarrow> q \<in> set (getProjects ?s) \<Longrightarrow> variables env = ?vs"
    for q env
    using active(2) by (auto simp: getProjects_def initial_state_def)
  have overlay: "collection (updateEnvironmentVariables ?s) ''OFF'' = None"
  proof (rule ccontr)
    assume "collection (updateEnvironmentVariables ?s) ''OFF'' \<noteq> None"
    then obtain v where "collection (updateEnvironmentVariables ?s) ''OFF'' = Some v" by auto
    with inst obtain x where x: "enabled x" "key x = ''OFF''"
      and src: "x \<in> set (workspaceVars ?s)
         \<or> (\<exists>q\<in>set (getProjects ?s). \<exists>env. find_active_env q = Some env \<and> x \<in> set (variables env))"
      by blast
    have "workspaceVars ?s = []" by (simp add: initial_state_def)
    with src only have "x \<in> set ?vs" by fastforce
    with x show False by (auto simp: var_def)
  qed
  have content: "(case fs ?s (envPath ?p) of None \<Rightarrow> [] | Some c \<Rightarrow> c) = ''OFF=0''"
    by (simp add: initial_state_def project_with_def envPath_def path_join_w)
  have split: "split_lines ''OFF=0'' = [''OFF=0'']"
    by (simp add: LF_def CR_def)
  from inst have same: "merge_lines ?vs [''OFF=0''] = merge_lines (filter enabled ?vs) [''OFF=0'']"
    by blast
  have flt: "filter enabled ?vs = [var ''FOO'' ''baz'']" by (simp add: var_def)
  from inst active have "fs (writeEnvFile ?p ?s) (envPath ?p)
      = Some (join_lines (merge_lines (variables ?e)
               (split_lines (case fs ?s (envPath ?p) of None \<Rightarrow> [] | Some c \<Rightarrow> c))))"
    by blast
  then have written: "fs (writeEnvFile ?p ?s) (envPath ?p)
      = Some (join_lines (merge_lines [var ''FOO'' ''baz''] [''OFF=0'']))"
    unfolding content split using same flt by simp
  show ?thesis using active overlay written same flt by simp
qed

section \<open>Where the code departs from its description\<close>

text \<open>
  C5. The target file is missing, or empty, and the active environment has the enabled
  variables \<open>A = 1\<close> and \<open>B = 2\<close>, in that order. The empty content splits into one
  empty line, which the first loop copies, so the file written starts with an empty line:
  its content is a line feed followed by the two lines, not the two lines alone.
\<close>

theorem writeEnvFile_empty_target_leading_newline:
  "fs (writeEnvFile (project_with ''/w'' [var ''A'' ''1'', var ''B'' ''2'']) (initial_state [] Map.empty))
      (envPath (project_with ''/w'' [var ''A'' ''1'', var ''B'' ''2'']))
     = Some (LF # ''A='' @ DQUOTE # ''1'' @ DQUOTE # LF # ''B='' @ DQUOTE # ''2'' @ [DQUOTE])
   \<and> fs (writeEnvFile (project_with ''/w'' [var ''A'' ''1'', var ''B'' ''2''])
          (initial_state [] [''/w/.env'' \<mapsto> []]))
      (envPath (project_with ''/w'' [var ''A'' ''1'', var ''B'' ''2'']))
     = Some (LF # ''A='' @ DQUOTE # ''1'' @ DQUOTE # LF # ''B='' @ DQUOTE # ''2'' @ [DQUOTE])
   \<and> LF # ''A='' @ DQUOTE # ''1'' @ DQUOTE # LF # ''B='' @ DQUOTE # ''2'' @ [DQUOTE]
     \<noteq> ''A='' @ DQUOTE # ''1'' @ DQUOTE # LF # ''B='' @ DQUOTE # ''2'' @ [DQUOTE]"
  by (simp add: write_eval)


text \<open>
  A path equal to the path of a project of the snapshot, character for character, is
  rejected before anything changes.
\<close>

lemma addProject_rejects_same_path:
  assumes "find (\<lambda>p. path p = projectPath) (getProjects st) = Some p"
  shows "addProject name projectPath envFilePath now1 now2 st = notify ProjectExistsMsg st"
    and "getProjects (addProject name projectPath envFilePath now1 now2 st) = getProjects st"
    and "secrets (addProject name projectPath envFilePath now1 now2 st) = secrets st"
    and "fs (addProject name projectPath envFilePath now1 now2 st) = fs st"
  using assms by (simp_all add: addProject_def Let_def notify_def getProjects_def)

text \<open>
  C6. The snapshot holds a project with the path \<open>/work/App\<close>, and \<^verbatim>\<open>addProject\<close> is
  called with the path \<open>/work/app\<close>, which is the same path up to the case of its letters.
  The comparison in \<^verbatim>\<open>addProject\<close> is the exact one: the call is not rejected, the new
  project is appended and saved, and no message is shown.
\<close>

theorem addProject_accepts_path_differing_in_case:
  "toLowerCase ''/work/app'' = toLowerCase (path (project_with ''/work/App'' []))
   \<and> getProjects (addProject ''second'' ''/work/app'' None ''2'' ''3''
        (initial_state [project_with ''/work/App'' []] Map.empty))
     = [project_with ''/work/App'' [],
        \<lparr>id_proj = ''2'', name_proj = ''second'', path = ''/work/app'', environments = [],
         activeEnvId = None\<rparr>]
   \<and> secrets (addProject ''second'' ''/work/app'' None ''2'' ''3''
        (initial_state [project_with ''/work/App'' []] Map.empty))
     = Some [project_with ''/work/App'' [],
        \<lparr>id_proj = ''2'', name_proj = ''second'', path = ''/work/app'', environments = [],
         activeEnvId = None\<rparr>]
   \<and> messages (addProject ''second'' ''/work/app'' None ''2'' ''3''
        (initial_state [project_with ''/work/App'' []] Map.empty)) = []"
proof -
  have "toLowerCase ''/work/app'' = toLowerCase ''/work/App''"
    by code_simp
  then show ?thesis
    by (simp add: addProject_def getProjects_def initial_state_def project_with_def truthy_def
        saveProjects_def updateEnvironmentVariables_def Let_def)
qed


text \<open>
  An operation on the id of a project that the snapshot does not have changes nothing,
  and so does an operation on a missing environment or variable that looks it up first.
  \<^verbatim>\<open>deleteEnvironment\<close> and \<^verbatim>\<open>deleteVariable\<close> do not look up what they delete: they
  save, and the projects they save are the ones the snapshot had.
\<close>

lemma update_first_unchanged:
  assumes "find P xs = Some x" "f x = x"
  shows "update_first P f xs = xs"
  using assms by (induction xs) (auto split: if_splits)

lemma missing_project_is_noop:
  assumes "find (\<lambda>p. id_proj p = pid) (getProjects st) = None"
  shows "renameProject pid newName st = st"
    and "deleteEnvironment pid eid st = st"
    and "renameEnvironment pid eid newName st = st"
    and "setActiveEnvironment pid eid st = st"
    and "addVariable pid eid k v st = st"
    and "deleteVariable pid eid k st = st"
    and "editVariable pid eid k k' v st = st"
  using assms
  by (simp_all add: renameProject_def deleteEnvironment_def renameEnvironment_def
      setActiveEnvironment_def addVariable_def deleteVariable_def editVariable_def Let_def)

lemma missing_environment_is_noop:
  assumes "find (\<lambda>p. id_proj p = pid) (getProjects st) = Some p"
    and "find (\<lambda>e. id_env e = eid) (environments p) = None"
  shows "renameEnvironment pid eid newName st = st"
    and "addVariable pid eid k v st = st"
    and "deleteVariable pid eid k st = st"
    and "editVariable pid eid k k' v st = st"
  using assms
  by (simp_all add: renameEnvironment_def addVariable_def deleteVariable_def editVariable_def Let_def)

lemma deleteEnvironment_missing_environment:
  assumes "find (\<lambda>p. id_proj p = pid) (getProjects st) = Some p"
    and "find (\<lambda>e. id_env e = eid) (environments p) = None"
    and "activeEnvId p \<noteq> Some eid"
  shows "getProjects (deleteEnvironment pid eid st) = getProjects st"
proof -
  have "filter (\<lambda>e. id_env e \<noteq> eid) (environments p) = environments p"
    using assms(2) by (auto simp: find_None_iff filter_id_conv)
  then have "remove_environment eid p = p"
    using assms(3) by (simp add: remove_environment_def Let_def)
  then have "update_first (\<lambda>p. id_proj p = pid) (remove_environment eid) (getProjects st)
               = getProjects st"
    using assms(1) by (intro update_first_unchanged)
  then show ?thesis using assms(1)
    by (simp add: deleteEnvironment_def Let_def getProjects_saveProjects)
qed

lemma missing_variable_is_noop:
  assumes "find (\<lambda>p. id_proj p = pid) (getProjects st) = Some p"
    and "find (\<lambda>e. id_env e = eid) (environments p) = Some env"
    and "find (\<lambda>x. key x = k) (variables env) = None"
  shows "editVariable pid eid k k' v st = st"
    and "getProjects (deleteVariable pid eid k st) = getProjects st"
proof -
  show "editVariable pid eid k k' v st = st"
    using assms by (simp add: editVariable_def Let_def)
  have "filter (\<lambda>x. key x \<noteq> k) (variables env) = variables env"
    using assms(3) by (auto simp: find_None_iff filter_id_conv)
  then have "env\<lparr>variables := filter (\<lambda>x. key x \<noteq> k) (variables env)\<rparr> = env" by simp
  then have "update_first (\<lambda>e. id_env e = eid)
               (\<lambda>e. e\<lparr>variables := filter (\<lambda>x. key x \<noteq> k) (variables e)\<rparr>) (environments p)
             = environments p"
    using assms(2) by (intro update_first_unchanged)
  then have "in_environment eid (\<lambda>e. e\<lparr>variables := filter (\<lambda>x. key x \<noteq> k) (variables e)\<rparr>) p = p"
    by (simp add: in_environment_def)
  then have "update_first (\<lambda>p. id_proj p = pid)
               (in_environment eid (\<lambda>e. e\<lparr>variables := filter (\<lambda>x. key x \<noteq> k) (variables e)\<rparr>))
               (getProjects st) = getProjects st"
    using assms(1) by (intro update_first_unchanged)
  then show "getProjects (deleteVariable pid eid k st) = getProjects st"
    using assms(1,2) by (simp add: deleteVariable_def Let_def getProjects_saveProjects)
qed


text \<open>
  C9. The project \<open>1\<close> has the single environment \<open>e1\<close>, and \<^verbatim>\<open>setActiveEnvironment\<close> is
  called on it with the environment id \<open>ghost\<close>, which the project does not have. The call
  is not without effect: the project's \<^verbatim>\<open>activeEnvId\<close> becomes \<open>ghost\<close>, the snapshot is
  saved and a message is shown.
\<close>

theorem setActiveEnvironment_accepts_missing_environment:
  "find (\<lambda>e. id_env e = ''ghost'') (environments (project_with ''/w'' [])) = None
   \<and> getProjects (setActiveEnvironment ''1'' ''ghost'' (initial_state [project_with ''/w'' []] Map.empty))
     = [(project_with ''/w'' [])\<lparr>activeEnvId := Some ''ghost''\<rparr>]
   \<and> secrets (setActiveEnvironment ''1'' ''ghost'' (initial_state [project_with ''/w'' []] Map.empty))
     = Some [(project_with ''/w'' [])\<lparr>activeEnvId := Some ''ghost''\<rparr>]
   \<and> messages (setActiveEnvironment ''1'' ''ghost'' (initial_state [project_with ''/w'' []] Map.empty))
     = [ActiveSetMsg ''ghost'' Terminal]"
  by (simp add: setActiveEnvironment_def getProjects_def initial_state_def project_with_def
      truthy_def saveProjects_def updateEnvironmentVariables_def notify_def Let_def)

end
